theory Spec2Isabelle
  imports Main "HOL-Library.Multiset"
begin

section \<open>The store\<close>

text \<open>
  The engine of the chat application lives in four modules of \<^verbatim>\<open>convex/\<close>
  (conversations, messages, reactions, typing).  Every handler works on the six tables
  of the schema through \<^verbatim>\<open>ctx.db\<close>.  A table is modelled as the list of the
  slots that were ever allocated in it: the document id is the position of the slot, a
  deleted document leaves \<open>None\<close> behind.  Ids are therefore unique, never reused, and
  ordered by creation, as the ids and creation times of the real store are.
\<close>

type_synonym 'a table = "'a option list"

type_synonym 'a doc = "nat \<times> 'a"

datatype error =
    NotUnique         \<comment> \<open>\<^verbatim>\<open>.unique()\<close> found more than one document\<close>
  | MessageNotFound   \<comment> \<open>\<^verbatim>\<open>Error("Message not found")\<close>\<close>
  | NotOwnMessage     \<comment> \<open>\<^verbatim>\<open>Error("You can only delete your own messages")\<close>\<close>
  | InvalidEmoji      \<comment> \<open>\<^verbatim>\<open>Error("Invalid emoji. Allowed: ...")\<close>\<close>

definition db_get :: "'a table \<Rightarrow> nat \<Rightarrow> 'a option" where
  "db_get t i = (if i < length t then t ! i else None)"

definition db_insert :: "'a table \<Rightarrow> 'a \<Rightarrow> nat \<times> 'a table" where
  "db_insert t r = (length t, t @ [Some r])"

text \<open>
  \<^verbatim>\<open>patch\<close> and \<^verbatim>\<open>delete\<close> are only ever called on the id of a document that
  the handler has just read, so the branch for a missing document is never taken.
\<close>

definition db_patch :: "'a table \<Rightarrow> nat \<Rightarrow> ('a \<Rightarrow> 'a) \<Rightarrow> 'a table" where
  "db_patch t i f = (case db_get t i of None \<Rightarrow> t | Some r \<Rightarrow> t[i := Some (f r)])"

definition db_delete :: "'a table \<Rightarrow> nat \<Rightarrow> 'a table" where
  "db_delete t i = (if i < length t then t[i := None] else t)"

fun docs_from :: "nat \<Rightarrow> 'a table \<Rightarrow> 'a doc list" where
  "docs_from n [] = []"
| "docs_from n (None # t) = docs_from (Suc n) t"
| "docs_from n (Some r # t) = (n, r) # docs_from (Suc n) t"

definition docs :: "'a table \<Rightarrow> 'a doc list" where
  "docs t = docs_from 0 t"

text \<open>
  \<^verbatim>\<open>query(..).withIndex(.., q => q.eq(..)).collect()\<close>: the documents whose indexed
  fields equal the given values, in index order.  For every index but
  \<^verbatim>\<open>by_conversation_createdAt\<close> the fields left after the equalities are the
  creation time only, so the order is the order of creation.
\<close>

definition query :: "'a table \<Rightarrow> ('a \<Rightarrow> bool) \<Rightarrow> 'a doc list" where
  "query t p = filter (\<lambda>d. p (snd d)) (docs t)"

text \<open>\<^verbatim>\<open>.unique()\<close>: null for no result, the document for one, an error for more.\<close>

definition unique :: "'a list \<Rightarrow> error + 'a option" where
  "unique xs = (case xs of [] \<Rightarrow> Inr None | [x] \<Rightarrow> Inr (Some x) | _ \<Rightarrow> Inl NotUnique)"

text \<open>\<^verbatim>\<open>.first()\<close>\<close>

definition first :: "'a list \<Rightarrow> 'a option" where
  "first xs = (case xs of [] \<Rightarrow> None | x # _ \<Rightarrow> Some x)"

section \<open>The schema\<close>

record user =
  u_clerkId :: string
  u_name :: string
  u_email :: string
  u_avatarUrl :: string
  u_isOnline :: bool
  u_lastSeen :: int

record conversation =
  c_isGroup :: bool
  c_name :: "string option"
  c_createdAt :: int

record conversationMember =
  cm_conversationId :: nat
  cm_userId :: nat
  cm_lastReadAt :: int

record message =
  m_conversationId :: nat
  m_senderId :: nat
  m_body :: string
  m_createdAt :: int
  m_isDeleted :: bool

record reaction =
  r_messageId :: nat
  r_userId :: nat
  r_emoji :: string

record typingIndicator =
  ti_conversationId :: nat
  ti_userId :: nat
  ti_updatedAt :: int

record db =
  users :: "user table"
  conversations :: "conversation table"
  conversationMembers :: "conversationMember table"
  messages :: "message table"
  reactions :: "reaction table"
  typingIndicators :: "typingIndicator table"

definition empty_db :: db where
  "empty_db = \<lparr>users = [], conversations = [], conversationMembers = [], messages = [],
     reactions = [], typingIndicators = []\<rparr>"

text \<open>
  A handler returns its value or the error it threw, together with the store as it left
  it.  \<open>mutation\<close> is the transaction around a handler: the writes of a handler that
  threw are discarded.  Every \<^verbatim>\<open>Date.now()\<close> of a handler is a parameter.
\<close>

type_synonym 'a result = "(error + 'a) \<times> db"

definition mutation :: "(db \<Rightarrow> 'a result) \<Rightarrow> db \<Rightarrow> 'a result" where
  "mutation handler s = (case handler s of (Inl e, s') \<Rightarrow> (Inl e, s) | (Inr v, s') \<Rightarrow> (Inr v, s'))"

section \<open>Messages\<close>

text \<open>\<^verbatim>\<open>by_conversation_createdAt\<close>, ascending: by \<open>createdAt\<close>, then by creation.\<close>

definition by_conversation_createdAt :: "db \<Rightarrow> nat \<Rightarrow> message doc list" where
  "by_conversation_createdAt s conversationId =
     sort_key (\<lambda>d. m_createdAt (snd d)) (query (messages s) (\<lambda>m. m_conversationId m = conversationId))"

definition sendMessage_handler :: "nat \<Rightarrow> nat \<Rightarrow> string \<Rightarrow> int \<Rightarrow> db \<Rightarrow> nat result" where
  "sendMessage_handler conversationId senderId body now s =
     (let (messageId, msgs) = db_insert (messages s)
            \<lparr>m_conversationId = conversationId, m_senderId = senderId, m_body = body,
             m_createdAt = now, m_isDeleted = False\<rparr>;
          s1 = s\<lparr>messages := msgs\<rparr>
      in case unique (query (typingIndicators s1)
                 (\<lambda>t. ti_userId t = senderId \<and> ti_conversationId t = conversationId)) of
           Inl e \<Rightarrow> (Inl e, s1)
         | Inr None \<Rightarrow> (Inr messageId, s1)
         | Inr (Some typingIndicator) \<Rightarrow>
             (Inr messageId,
              s1\<lparr>typingIndicators := db_delete (typingIndicators s1) (fst typingIndicator)\<rparr>))"

definition sendMessage :: "nat \<Rightarrow> nat \<Rightarrow> string \<Rightarrow> int \<Rightarrow> db \<Rightarrow> nat result" where
  "sendMessage conversationId senderId body now =
     mutation (sendMessage_handler conversationId senderId body now)"

definition deleteMessage_handler :: "nat \<Rightarrow> nat \<Rightarrow> db \<Rightarrow> unit result" where
  "deleteMessage_handler messageId userId s =
     (case db_get (messages s) messageId of
        None \<Rightarrow> (Inl MessageNotFound, s)
      | Some message \<Rightarrow>
          if m_senderId message \<noteq> userId then (Inl NotOwnMessage, s)
          else (Inr (),
                s\<lparr>messages := db_patch (messages s) messageId (\<lambda>m. m\<lparr>m_isDeleted := True\<rparr>)\<rparr>))"

definition deleteMessage :: "nat \<Rightarrow> nat \<Rightarrow> db \<Rightarrow> unit result" where
  "deleteMessage messageId userId = mutation (deleteMessage_handler messageId userId)"

section \<open>Conversations\<close>

text \<open>The loop of \<^verbatim>\<open>getOrCreateDirectConversation\<close> over the caller's memberships.\<close>

fun find_direct :: "db \<Rightarrow> nat \<Rightarrow> conversationMember doc list \<Rightarrow> error + nat option" where
  "find_direct s otherUserId [] = Inr None"
| "find_direct s otherUserId (membership # rest) =
     (case db_get (conversations s) (cm_conversationId (snd membership)) of
        None \<Rightarrow> find_direct s otherUserId rest
      | Some conversation \<Rightarrow>
          if c_isGroup conversation then find_direct s otherUserId rest
          else (case unique (query (conversationMembers s)
                       (\<lambda>m. cm_userId m = otherUserId \<and>
                            cm_conversationId m = cm_conversationId (snd membership))) of
                  Inl e \<Rightarrow> Inl e
                | Inr (Some otherMembership) \<Rightarrow> Inr (Some (cm_conversationId (snd membership)))
                | Inr None \<Rightarrow> find_direct s otherUserId rest))"

definition getOrCreateDirectConversation_handler ::
    "nat \<Rightarrow> nat \<Rightarrow> int \<Rightarrow> int \<Rightarrow> db \<Rightarrow> nat result" where
  "getOrCreateDirectConversation_handler currentUserId otherUserId createdAt now s =
     (let currentUserMemberships = query (conversationMembers s) (\<lambda>m. cm_userId m = currentUserId)
      in case find_direct s otherUserId currentUserMemberships of
           Inl e \<Rightarrow> (Inl e, s)
         | Inr (Some conversationId) \<Rightarrow> (Inr conversationId, s)
         | Inr None \<Rightarrow>
             (let (conversationId, cs) = db_insert (conversations s)
                    \<lparr>c_isGroup = False, c_name = None, c_createdAt = createdAt\<rparr>;
                  (_, ms1) = db_insert (conversationMembers s)
                    \<lparr>cm_conversationId = conversationId, cm_userId = currentUserId,
                     cm_lastReadAt = now\<rparr>;
                  (_, ms2) = db_insert ms1
                    \<lparr>cm_conversationId = conversationId, cm_userId = otherUserId,
                     cm_lastReadAt = now\<rparr>
              in (Inr conversationId, s\<lparr>conversations := cs, conversationMembers := ms2\<rparr>)))"

definition getOrCreateDirectConversation :: "nat \<Rightarrow> nat \<Rightarrow> int \<Rightarrow> int \<Rightarrow> db \<Rightarrow> nat result" where
  "getOrCreateDirectConversation currentUserId otherUserId createdAt now =
     mutation (getOrCreateDirectConversation_handler currentUserId otherUserId createdAt now)"

definition createGroupConversation_handler ::
    "string \<Rightarrow> nat list \<Rightarrow> nat \<Rightarrow> int \<Rightarrow> int \<Rightarrow> db \<Rightarrow> nat result" where
  "createGroupConversation_handler name memberIds creatorId createdAt now s =
     (let (conversationId, cs) = db_insert (conversations s)
            \<lparr>c_isGroup = True, c_name = Some name, c_createdAt = createdAt\<rparr>;
          (_, ms1) = db_insert (conversationMembers s)
            \<lparr>cm_conversationId = conversationId, cm_userId = creatorId, cm_lastReadAt = now\<rparr>;
          ms2 = foldl (\<lambda>ms memberId. snd (db_insert ms
                   \<lparr>cm_conversationId = conversationId, cm_userId = memberId,
                    cm_lastReadAt = now\<rparr>)) ms1 memberIds
      in (Inr conversationId, s\<lparr>conversations := cs, conversationMembers := ms2\<rparr>))"

definition createGroupConversation ::
    "string \<Rightarrow> nat list \<Rightarrow> nat \<Rightarrow> int \<Rightarrow> int \<Rightarrow> db \<Rightarrow> nat result" where
  "createGroupConversation name memberIds creatorId createdAt now =
     mutation (createGroupConversation_handler name memberIds creatorId createdAt now)"

definition markAsRead_handler :: "nat \<Rightarrow> nat \<Rightarrow> int \<Rightarrow> db \<Rightarrow> unit result" where
  "markAsRead_handler userId conversationId now s =
     (case unique (query (conversationMembers s)
              (\<lambda>m. cm_userId m = userId \<and> cm_conversationId m = conversationId)) of
        Inl e \<Rightarrow> (Inl e, s)
      | Inr None \<Rightarrow> (Inr (), s)
      | Inr (Some membership) \<Rightarrow>
          (Inr (), s\<lparr>conversationMembers :=
             db_patch (conversationMembers s) (fst membership) (\<lambda>m. m\<lparr>cm_lastReadAt := now\<rparr>)\<rparr>))"

definition markAsRead :: "nat \<Rightarrow> nat \<Rightarrow> int \<Rightarrow> db \<Rightarrow> unit result" where
  "markAsRead userId conversationId now = mutation (markAsRead_handler userId conversationId now)"

text \<open>One element of the list that \<^verbatim>\<open>getUserConversations\<close> returns.\<close>

record enriched =
  e_conversation :: "conversation doc"
  e_members :: "user list"
  e_latestMessage :: "message doc option"
  e_latestMessageSender :: "user option"
  e_unreadCount :: nat
  e_memberCount :: nat

text \<open>
  The body of the loop of \<^verbatim>\<open>getUserConversations\<close>: \<open>None\<close> is the
  \<^verbatim>\<open>continue\<close> for a membership whose conversation is missing.
\<close>

definition enrich :: "db \<Rightarrow> nat \<Rightarrow> conversationMember doc \<Rightarrow> enriched option" where
  "enrich s userId membership =
     (case db_get (conversations s) (cm_conversationId (snd membership)) of
        None \<Rightarrow> None
      | Some conversation \<Rightarrow>
          (let conversationId = cm_conversationId (snd membership);
               allMembers = query (conversationMembers s) (\<lambda>m. cm_conversationId m = conversationId);
               memberUsers = map (\<lambda>m. db_get (users s) (cm_userId (snd m))) allMembers;
               latestMessage = first (rev (by_conversation_createdAt s conversationId));
               unreadMessages = by_conversation_createdAt s conversationId;
               unreadCount = length (filter (\<lambda>msg. m_createdAt (snd msg) > cm_lastReadAt (snd membership)
                                \<and> m_senderId (snd msg) \<noteq> userId) unreadMessages);
               latestMessageSender = (case latestMessage of None \<Rightarrow> None
                                      | Some msg \<Rightarrow> db_get (users s) (m_senderId (snd msg)))
           in Some \<lparr>e_conversation = (conversationId, conversation),
                    e_members = List.map_filter id memberUsers,
                    e_latestMessage = latestMessage,
                    e_latestMessageSender = latestMessageSender,
                    e_unreadCount = unreadCount,
                    e_memberCount = length allMembers\<rparr>))"

text \<open>The timestamp the result is sorted by, newest first (the sort is stable).\<close>

definition sort_time :: "enriched \<Rightarrow> int" where
  "sort_time a = (case e_latestMessage a of Some msg \<Rightarrow> m_createdAt (snd msg)
                  | None \<Rightarrow> c_createdAt (snd (e_conversation a)))"

definition getUserConversations :: "nat \<Rightarrow> db \<Rightarrow> enriched list" where
  "getUserConversations userId s =
     sort_key (\<lambda>a. - sort_time a)
       (List.map_filter (enrich s userId)
          (query (conversationMembers s) (\<lambda>m. cm_userId m = userId)))"

section \<open>Reactions\<close>

text \<open>The five emoji, as the UTF-8 bytes of the source file.\<close>

definition ALLOWED_EMOJIS :: "string list" where
  "ALLOWED_EMOJIS =
     [[CHR 0xF0, CHR 0x9F, CHR 0x91, CHR 0x8D],
      [CHR 0xE2, CHR 0x9D, CHR 0xA4, CHR 0xEF, CHR 0xB8, CHR 0x8F],
      [CHR 0xF0, CHR 0x9F, CHR 0x98, CHR 0x82],
      [CHR 0xF0, CHR 0x9F, CHR 0x98, CHR 0xAE],
      [CHR 0xF0, CHR 0x9F, CHR 0x98, CHR 0xA2]]"

definition toggleReaction_handler :: "nat \<Rightarrow> nat \<Rightarrow> string \<Rightarrow> db \<Rightarrow> unit result" where
  "toggleReaction_handler messageId userId emoji s =
     (if emoji \<notin> set ALLOWED_EMOJIS then (Inl InvalidEmoji, s)
      else
        (let existingReactions = query (reactions s)
               (\<lambda>r. r_messageId r = messageId \<and> r_userId r = userId)
         in case find (\<lambda>r. r_emoji (snd r) = emoji) existingReactions of
              Some sameReaction \<Rightarrow>
                (Inr (), s\<lparr>reactions := db_delete (reactions s) (fst sameReaction)\<rparr>)
            | None \<Rightarrow>
                (let rs = foldl (\<lambda>t reaction. db_delete t (fst reaction)) (reactions s)
                            existingReactions;
                     (_, rs') = db_insert rs
                       \<lparr>r_messageId = messageId, r_userId = userId, r_emoji = emoji\<rparr>
                 in (Inr (), s\<lparr>reactions := rs'\<rparr>))))"

definition toggleReaction :: "nat \<Rightarrow> nat \<Rightarrow> string \<Rightarrow> db \<Rightarrow> unit result" where
  "toggleReaction messageId userId emoji = mutation (toggleReaction_handler messageId userId emoji)"

section \<open>Typing indicators\<close>

definition TYPING_EXPIRY_MS :: int where
  "TYPING_EXPIRY_MS = 2000"

definition setTyping_handler :: "nat \<Rightarrow> nat \<Rightarrow> int \<Rightarrow> db \<Rightarrow> unit result" where
  "setTyping_handler conversationId userId now s =
     (case unique (query (typingIndicators s)
              (\<lambda>t. ti_userId t = userId \<and> ti_conversationId t = conversationId)) of
        Inl e \<Rightarrow> (Inl e, s)
      | Inr (Some existing) \<Rightarrow>
          (Inr (), s\<lparr>typingIndicators :=
             db_patch (typingIndicators s) (fst existing) (\<lambda>t. t\<lparr>ti_updatedAt := now\<rparr>)\<rparr>)
      | Inr None \<Rightarrow>
          (Inr (), s\<lparr>typingIndicators := snd (db_insert (typingIndicators s)
             \<lparr>ti_conversationId = conversationId, ti_userId = userId, ti_updatedAt = now\<rparr>)\<rparr>))"

definition setTyping :: "nat \<Rightarrow> nat \<Rightarrow> int \<Rightarrow> db \<Rightarrow> unit result" where
  "setTyping conversationId userId now = mutation (setTyping_handler conversationId userId now)"

definition clearTyping_handler :: "nat \<Rightarrow> nat \<Rightarrow> db \<Rightarrow> unit result" where
  "clearTyping_handler conversationId userId s =
     (case unique (query (typingIndicators s)
              (\<lambda>t. ti_userId t = userId \<and> ti_conversationId t = conversationId)) of
        Inl e \<Rightarrow> (Inl e, s)
      | Inr (Some existing) \<Rightarrow>
          (Inr (), s\<lparr>typingIndicators := db_delete (typingIndicators s) (fst existing)\<rparr>)
      | Inr None \<Rightarrow> (Inr (), s))"

definition clearTyping :: "nat \<Rightarrow> nat \<Rightarrow> db \<Rightarrow> unit result" where
  "clearTyping conversationId userId = mutation (clearTyping_handler conversationId userId)"

definition activeIndicators :: "nat \<Rightarrow> nat \<Rightarrow> int \<Rightarrow> db \<Rightarrow> typingIndicator doc list" where
  "activeIndicators conversationId currentUserId now s =
     filter (\<lambda>indicator. ti_userId (snd indicator) \<noteq> currentUserId
                \<and> now - ti_updatedAt (snd indicator) < TYPING_EXPIRY_MS)
       (query (typingIndicators s) (\<lambda>t. ti_conversationId t = conversationId))"

definition display_name :: "db \<Rightarrow> nat \<Rightarrow> string" where
  "display_name s userId = (case db_get (users s) userId of Some u \<Rightarrow> u_name u | None \<Rightarrow> ''Someone'')"

definition getTypingUsers :: "nat \<Rightarrow> nat \<Rightarrow> int \<Rightarrow> db \<Rightarrow> string list" where
  "getTypingUsers conversationId currentUserId now s =
     map (\<lambda>indicator. display_name s (ti_userId (snd indicator)))
       (activeIndicators conversationId currentUserId now s)"

section \<open>Runs of mutations\<close>

text \<open>
  The mutations of the four modules as one type of commands; \<open>step\<close> runs one of them
  as a transaction and keeps the store, \<open>run\<close> runs a list of them in order.
\<close>

datatype op =
    GetOrCreateDirect nat nat int int
  | CreateGroup string "nat list" nat int int
  | MarkAsRead nat nat int
  | SendMessage nat nat string int
  | DeleteMessage nat nat
  | ToggleReaction nat nat string
  | SetTyping nat nat int
  | ClearTyping nat nat

fun step :: "op \<Rightarrow> db \<Rightarrow> db" where
  "step (GetOrCreateDirect a b createdAt now) s = snd (getOrCreateDirectConversation a b createdAt now s)"
| "step (CreateGroup name memberIds creatorId createdAt now) s =
     snd (createGroupConversation name memberIds creatorId createdAt now s)"
| "step (MarkAsRead u c now) s = snd (markAsRead u c now s)"
| "step (SendMessage c u body now) s = snd (sendMessage c u body now s)"
| "step (DeleteMessage m u) s = snd (deleteMessage m u s)"
| "step (ToggleReaction m u emoji) s = snd (toggleReaction m u emoji s)"
| "step (SetTyping c u now) s = snd (setTyping c u now s)"
| "step (ClearTyping c u) s = snd (clearTyping c u s)"

definition run :: "op list \<Rightarrow> db \<Rightarrow> db" where
  "run ops s = foldl (\<lambda>s' x. step x s') s ops"

text \<open>
  A list of calls of \<^verbatim>\<open>getOrCreateDirectConversation\<close>, each with its two
  arguments and its two clock readings, run in order; the results are collected.
\<close>

fun run_direct :: "db \<Rightarrow> (nat \<times> nat \<times> int \<times> int) list \<Rightarrow> (error + nat) list \<times> db" where
  "run_direct s [] = ([], s)"
| "run_direct s ((a, b, createdAt, now) # calls) =
     (let (r, s') = getOrCreateDirectConversation a b createdAt now s;
          (rs, s'') = run_direct s' calls
      in (r # rs, s''))"

text \<open>Whether a command sets or clears the typing indicator of user \<open>u\<close> in conversation \<open>c\<close>.\<close>

fun typing_by :: "nat \<Rightarrow> nat \<Rightarrow> op \<Rightarrow> bool" where
  "typing_by c u (SetTyping c' u' now) = (c' = c \<and> u' = u)"
| "typing_by c u (ClearTyping c' u') = (c' = c \<and> u' = u)"
| "typing_by c u (SendMessage c' u' body now) = (c' = c \<and> u' = u)"
| "typing_by c u x = False"

section \<open>Notions of the data model\<close>

definition is_direct :: "db \<Rightarrow> nat \<Rightarrow> bool" where
  "is_direct s c = (case db_get (conversations s) c of None \<Rightarrow> False
                    | Some conversation \<Rightarrow> \<not> c_isGroup conversation)"

definition members_of :: "db \<Rightarrow> nat \<Rightarrow> conversationMember doc list" where
  "members_of s c = query (conversationMembers s) (\<lambda>m. cm_conversationId m = c)"

definition member_users :: "db \<Rightarrow> nat \<Rightarrow> nat list" where
  "member_users s c = map (\<lambda>m. cm_userId (snd m)) (members_of s c)"

definition memberships_of :: "db \<Rightarrow> nat \<Rightarrow> nat \<Rightarrow> conversationMember doc list" where
  "memberships_of s u c =
     query (conversationMembers s) (\<lambda>m. cm_userId m = u \<and> cm_conversationId m = c)"

definition direct_ids :: "db \<Rightarrow> nat list" where
  "direct_ids s = filter (is_direct s) [0..<length (conversations s)]"

text \<open>A direct conversation that both users are members of.\<close>

definition has_direct :: "db \<Rightarrow> nat \<Rightarrow> nat \<Rightarrow> nat \<Rightarrow> bool" where
  "has_direct s a b c \<longleftrightarrow>
     is_direct s c \<and> a \<in> set (member_users s c) \<and> b \<in> set (member_users s c)"

text \<open>
  What the sequential mutations keep true of direct conversations: every membership
  belongs to an allocated conversation, a direct conversation has two memberships, and
  no two direct conversations share two different members.
\<close>

definition direct_inv :: "db \<Rightarrow> bool" where
  "direct_inv s \<longleftrightarrow>
     (\<forall>m \<in> set (docs (conversationMembers s)). cm_conversationId (snd m) < length (conversations s)) \<and>
     (\<forall>c \<in> set (direct_ids s). length (members_of s c) = 2) \<and>
     (\<forall>c \<in> set (direct_ids s). \<forall>c' \<in> set (direct_ids s). c \<noteq> c' \<longrightarrow>
        (\<forall>u \<in> set (member_users s c). \<forall>v \<in> set (member_users s c). u \<noteq> v \<longrightarrow>
           \<not> (u \<in> set (member_users s c') \<and> v \<in> set (member_users s c'))))"

text \<open>
  The unread count in the words of the specification: the number of messages of the
  conversation created after \<open>lastReadAt\<close> and not sent by the user.
\<close>

definition unread_spec :: "db \<Rightarrow> nat \<Rightarrow> nat \<Rightarrow> int \<Rightarrow> nat" where
  "unread_spec s c u lastReadAt =
     card {i. \<exists>msg. db_get (messages s) i = Some msg \<and> m_conversationId msg = c \<and>
                 m_createdAt msg > lastReadAt \<and> m_senderId msg \<noteq> u}"

definition reactions_of :: "db \<Rightarrow> nat \<Rightarrow> nat \<Rightarrow> reaction doc list" where
  "reactions_of s m u = query (reactions s) (\<lambda>r. r_messageId r = m \<and> r_userId r = u)"

text \<open>
  A body that \<^verbatim>\<open>trim()\<close> would empty.  \<open>white_space\<close> lists, in UTF-8, the code
  points that \<^verbatim>\<open>String.prototype.trim\<close> strips: tab, line feed, vertical tab, form
  feed, carriage return, space, U+00A0, U+1680, U+2000 to U+200A, U+2028, U+2029,
  U+202F, U+205F, U+3000 and U+FEFF.  A body is blank when it is a sequence of them.
\<close>

definition white_space :: "string list" where
  "white_space =
     [[CHR 0x09], [CHR 0x0A], [CHR 0x0B], [CHR 0x0C], [CHR 0x0D], [CHR 0x20],
      [CHR 0xC2, CHR 0xA0], [CHR 0xE1, CHR 0x9A, CHR 0x80],
      [CHR 0xE2, CHR 0x80, CHR 0x80], [CHR 0xE2, CHR 0x80, CHR 0x81],
      [CHR 0xE2, CHR 0x80, CHR 0x82], [CHR 0xE2, CHR 0x80, CHR 0x83],
      [CHR 0xE2, CHR 0x80, CHR 0x84], [CHR 0xE2, CHR 0x80, CHR 0x85],
      [CHR 0xE2, CHR 0x80, CHR 0x86], [CHR 0xE2, CHR 0x80, CHR 0x87],
      [CHR 0xE2, CHR 0x80, CHR 0x88], [CHR 0xE2, CHR 0x80, CHR 0x89],
      [CHR 0xE2, CHR 0x80, CHR 0x8A], [CHR 0xE2, CHR 0x80, CHR 0xA8],
      [CHR 0xE2, CHR 0x80, CHR 0xA9], [CHR 0xE2, CHR 0x80, CHR 0xAF],
      [CHR 0xE2, CHR 0x81, CHR 0x9F], [CHR 0xE3, CHR 0x80, CHR 0x80],
      [CHR 0xEF, CHR 0xBB, CHR 0xBF]]"

fun strip_white :: "string list \<Rightarrow> string \<Rightarrow> string option" where
  "strip_white [] body = None"
| "strip_white (w # ws) body =
     (if take (length w) body = w then Some (drop (length w) body) else strip_white ws body)"

fun blank_upto :: "nat \<Rightarrow> string \<Rightarrow> bool" where
  "blank_upto 0 body = (body = [])"
| "blank_upto (Suc n) body =
     (body = [] \<or> (case strip_white white_space body of None \<Rightarrow> False
                    | Some rest \<Rightarrow> blank_upto n rest))"

definition blank :: "string \<Rightarrow> bool" where
  "blank body = blank_upto (length body) body"

text \<open>A store with two registered users, for the examples.\<close>

definition two_users :: db where
  "two_users = empty_db\<lparr>users :=
     [Some \<lparr>u_clerkId = ''clerk_a'', u_name = ''Alex'', u_email = ''alex@example.org'',
            u_avatarUrl = [], u_isOnline = False, u_lastSeen = 0\<rparr>,
      Some \<lparr>u_clerkId = ''clerk_b'', u_name = ''Blake'', u_email = ''blake@example.org'',
            u_avatarUrl = [], u_isOnline = False, u_lastSeen = 0\<rparr>]\<rparr>"

text \<open>
  The two users open their direct conversation, user 0 sends two messages and then
  withdraws the second one.
\<close>

definition chat_example :: db where
  "chat_example =
     run [GetOrCreateDirect 0 1 500 500, SendMessage 0 0 ''first'' 1000,
          SendMessage 0 0 ''second'' 2000, DeleteMessage 1 0] two_users"

text \<open>A store with three registered users, two of them with the same display name.\<close>

definition namesakes :: db where
  "namesakes = empty_db\<lparr>users :=
     [Some \<lparr>u_clerkId = ''clerk_a'', u_name = ''Alex'', u_email = ''alex@example.org'',
            u_avatarUrl = [], u_isOnline = False, u_lastSeen = 0\<rparr>,
      Some \<lparr>u_clerkId = ''clerk_c'', u_name = ''Alex'', u_email = ''alex@example.com'',
            u_avatarUrl = [], u_isOnline = False, u_lastSeen = 0\<rparr>,
      Some \<lparr>u_clerkId = ''clerk_b'', u_name = ''Blake'', u_email = ''blake@example.org'',
            u_avatarUrl = [], u_isOnline = False, u_lastSeen = 0\<rparr>]\<rparr>"

section \<open>Facts about the store\<close>

lemma docs_from_append:
  "docs_from n (t @ u) = docs_from n t @ docs_from (n + length t) u"
  by (induction n t rule: docs_from.induct) simp_all

lemma docs_from_mem:
  "(i, r) \<in> set (docs_from n t) \<longleftrightarrow> n \<le> i \<and> i - n < length t \<and> t ! (i - n) = Some r"
proof (induction n t rule: docs_from.induct)
  case (1 n)
  show ?case by simp
next
  case (2 n t)
  show ?case
  proof (cases "i = n")
    case True
    then show ?thesis using 2 by simp
  next
    case False
    then show ?thesis using 2 by (auto simp: nth_Cons' Suc_diff_le)
  qed
next
  case (3 n r' t)
  show ?case
  proof (cases "i = n")
    case True
    then show ?thesis using 3 by auto
  next
    case False
    then show ?thesis using 3 by (auto simp: nth_Cons' Suc_diff_le)
  qed
qed

lemma docs_mem: "(i, r) \<in> set (docs t) \<longleftrightarrow> db_get t i = Some r"
  by (simp add: docs_def docs_from_mem db_get_def)

lemma db_get_patch:
  "db_get (db_patch t i f) j = (if j = i then map_option f (db_get t i) else db_get t j)"
  by (auto simp: db_patch_def db_get_def split: option.splits)

lemma db_get_insert:
  "db_get (snd (db_insert t r)) j = (if j = length t then Some r else db_get t j)"
  by (auto simp: db_insert_def db_get_def nth_append)

lemma db_get_delete:
  "db_get (db_delete t i) j = (if j = i then None else db_get t j)"
  by (auto simp: db_delete_def db_get_def)

lemma db_get_Some_less: "db_get t i = Some r \<Longrightarrow> i < length t"
  by (auto simp: db_get_def split: if_splits)

lemma docs_snoc: "docs (t @ [Some r]) = docs t @ [(length t, r)]"
  by (simp add: docs_def docs_from_append)

lemma docs_from_fst_ge: "d \<in> set (docs_from n t) \<Longrightarrow> n \<le> fst d"
  using docs_from_mem [of "fst d" "snd d" n t] by simp

lemma docs_from_Suc_ne: "d \<in> set (docs_from (Suc n) t) \<Longrightarrow> fst d \<noteq> n"
  using docs_from_fst_ge [of d "Suc n" t] by simp

lemma docs_from_update_None:
  "docs_from n (t[k := None]) = filter (\<lambda>d. fst d \<noteq> n + k) (docs_from n t)"
proof (induction n t arbitrary: k rule: docs_from.induct)
  case (1 n)
  show ?case by simp
next
  case (2 n t)
  show ?case
  proof (cases k)
    case 0
    have "\<forall>d \<in> set (docs_from (Suc n) t). fst d \<noteq> n"
      using docs_from_Suc_ne by blast
    then show ?thesis using 0 by (simp add: filter_id_conv)
  next
    case (Suc k')
    then show ?thesis using 2 [of k'] by simp
  qed
next
  case (3 n r t)
  show ?case
  proof (cases k)
    case 0
    have "\<forall>d \<in> set (docs_from (Suc n) t). fst d \<noteq> n"
      using docs_from_Suc_ne by blast
    then show ?thesis using 0 by (simp add: filter_id_conv)
  next
    case (Suc k')
    then show ?thesis using 3 [of k'] by simp
  qed
qed

lemma docs_from_update_Some:
  "k < length t \<Longrightarrow> t ! k = Some r \<Longrightarrow>
   docs_from n (t[k := Some r']) = map (\<lambda>d. if fst d = n + k then (fst d, r') else d) (docs_from n t)"
proof (induction n t arbitrary: k rule: docs_from.induct)
  case (1 n)
  then show ?case by simp
next
  case (2 n t)
  then show ?case
  proof (cases k)
    case 0
    with 2 show ?thesis by simp
  next
    case (Suc k')
    then show ?thesis using 2 by simp
  qed
next
  case (3 n r0 t)
  show ?case
  proof (cases k)
    case 0
    have "\<forall>d \<in> set (docs_from (Suc n) t). fst d \<noteq> n"
      using docs_from_Suc_ne by blast
    then have "map (\<lambda>d. if fst d = n then (fst d, r') else d) (docs_from (Suc n) t) = docs_from (Suc n) t"
      by (simp add: map_idI)
    then show ?thesis using 0 by simp
  next
    case (Suc k')
    then show ?thesis using 3 by simp
  qed
qed

lemma docs_delete: "docs (db_delete t i) = filter (\<lambda>d. fst d \<noteq> i) (docs t)"
proof (cases "i < length t")
  case True
  then show ?thesis by (simp add: db_delete_def docs_def docs_from_update_None)
next
  case False
  have "\<forall>d \<in> set (docs t). fst d \<noteq> i"
    using False docs_mem [of _ _ t] db_get_Some_less by fastforce
  then show ?thesis using False by (simp add: db_delete_def filter_id_conv)
qed

lemma docs_patch:
  "docs (db_patch t i f) = map (\<lambda>d. if fst d = i then (i, f (snd d)) else d) (docs t)"
proof (cases "db_get t i")
  case None
  have "\<forall>d \<in> set (docs t). fst d \<noteq> i"
    using None docs_mem [of _ _ t] by fastforce
  then show ?thesis using None by (simp add: db_patch_def map_idI)
next
  case (Some r)
  then have k: "i < length t" "t ! i = Some r"
    by (auto simp: db_get_def split: if_splits)
  have "\<forall>d \<in> set (docs t). fst d = i \<longrightarrow> snd d = r"
    using Some docs_mem [of _ _ t] by fastforce
  then have "map (\<lambda>d. if fst d = i then (fst d, f r) else d) (docs t)
           = map (\<lambda>d. if fst d = i then (i, f (snd d)) else d) (docs t)"
    by auto
  then show ?thesis
    using Some docs_from_update_Some [OF k, of 0 "f r"] by (simp add: db_patch_def docs_def)
qed

lemma distinct_docs_from: "distinct (map fst (docs_from n t))"
proof (induction n t rule: docs_from.induct)
  case (3 n r t)
  have "n \<notin> fst ` set (docs_from (Suc n) t)"
    using docs_from_Suc_ne by blast
  then show ?case using 3 by simp
qed simp_all

lemma distinct_docs: "distinct (map fst (docs t))"
  by (simp add: docs_def distinct_docs_from)

lemma query_snoc:
  "query (t @ [Some r]) p = query t p @ (if p r then [(length t, r)] else [])"
  by (simp add: query_def docs_snoc)

lemma query_mem: "d \<in> set (query t p) \<longleftrightarrow> db_get t (fst d) = Some (snd d) \<and> p (snd d)"
  using docs_mem [of "fst d" "snd d" t] by (auto simp: query_def)

lemma query_delete: "query (db_delete t i) p = filter (\<lambda>d. fst d \<noteq> i) (query t p)"
  by (simp add: query_def docs_delete conj_commute)

lemma query_patch:
  assumes "\<And>r. p (f r) = p r"
  shows "query (db_patch t i f) p = map (\<lambda>d. if fst d = i then (i, f (snd d)) else d) (query t p)"
  using assms by (simp add: query_def docs_patch filter_map o_def if_distrib cong: if_cong)

section \<open>Soft delete\<close>

text \<open>
  C5.  For a stored message and a requester: when the requester is not the sender,
  \<^verbatim>\<open>deleteMessage\<close> fails with the ownership error and the handler has written
  nothing; when the requester is the sender, the call succeeds and the message is
  flagged deleted, and a second call by the sender succeeds and leaves it flagged.
  No call of \<^verbatim>\<open>deleteMessage\<close>, whatever its arguments, clears the flag of a
  message that is flagged.
\<close>

theorem deleteMessage_sender_only:
  assumes "db_get (messages s) messageId = Some msg"
  shows "(requesterId \<noteq> m_senderId msg \<longrightarrow>
            deleteMessage_handler messageId requesterId s = (Inl NotOwnMessage, s) \<and>
            deleteMessage messageId requesterId s = (Inl NotOwnMessage, s))
       \<and> (requesterId = m_senderId msg \<longrightarrow>
            (\<exists>s'. deleteMessage messageId requesterId s = (Inr (), s') \<and>
                  db_get (messages s') messageId = Some (msg\<lparr>m_isDeleted := True\<rparr>) \<and>
                  (\<exists>s''. deleteMessage messageId requesterId s' = (Inr (), s'') \<and>
                     db_get (messages s'') messageId = Some (msg\<lparr>m_isDeleted := True\<rparr>))))
       \<and> (\<forall>m' msg' m2 u2. db_get (messages s) m' = Some msg' \<and> m_isDeleted msg' \<longrightarrow>
            (\<exists>msg''. db_get (messages (snd (deleteMessage m2 u2 s))) m' = Some msg'' \<and>
                      m_isDeleted msg''))"
  using assms
  by (auto simp: deleteMessage_def deleteMessage_handler_def mutation_def db_get_patch
           split: option.splits)

theorem deleteMessage_sender_only_witness:
  "deleteMessage 0 1 (snd (sendMessage 0 0 ''hi'' 1000 two_users))
     = (Inl NotOwnMessage, snd (sendMessage 0 0 ''hi'' 1000 two_users))
   \<and> (\<exists>s'. deleteMessage 0 0 (snd (sendMessage 0 0 ''hi'' 1000 two_users)) = (Inr (), s') \<and>
          db_get (messages s') 0 =
            Some \<lparr>m_conversationId = 0, m_senderId = 0, m_body = ''hi'', m_createdAt = 1000,
                  m_isDeleted = True\<rparr>)"
proof -
  have h: "db_get (messages (snd (sendMessage 0 0 ''hi'' 1000 two_users))) 0 =
             Some \<lparr>m_conversationId = 0, m_senderId = 0, m_body = ''hi'', m_createdAt = 1000,
                   m_isDeleted = False\<rparr>"
    by code_simp
  show ?thesis
    using deleteMessage_sender_only [OF h, of 1] deleteMessage_sender_only [OF h, of 0]
    by auto
qed

lemma unique_cases:
  "unique xs = (if xs = [] then Inr None else if length xs = 1 then Inr (Some (hd xs)) else Inl NotUnique)"
  by (cases xs; cases "tl xs") (auto simp: unique_def split: list.splits)

section \<open>Sending a message\<close>

text \<open>
  C2 (as stated, refuted).  The claim is that \<^verbatim>\<open>sendMessage\<close> with an empty or
  whitespace-only body fails and inserts nothing.  On the store with two users and no
  messages, the empty body and the body of three spaces are both accepted: the call
  returns the id of a new message, and that message is stored with the body as given.
\<close>

theorem sendMessage_blank_counterexample:
  "blank [] \<and> blank ''   '' \<and>
   sendMessage 0 0 [] 1000 two_users =
     (Inr 0, two_users\<lparr>messages := [Some \<lparr>m_conversationId = 0, m_senderId = 0, m_body = [],
                                           m_createdAt = 1000, m_isDeleted = False\<rparr>]\<rparr>) \<and>
   sendMessage 0 0 ''   '' 1000 two_users =
     (Inr 0, two_users\<lparr>messages := [Some \<lparr>m_conversationId = 0, m_senderId = 0, m_body = ''   '',
                                           m_createdAt = 1000, m_isDeleted = False\<rparr>]\<rparr>)"
  by code_simp

text \<open>
  C2 (amended).  \<^verbatim>\<open>sendMessage\<close> does not look at the body: for every body, the
  blank ones included, and a sender with at most one typing indicator in the
  conversation (as in every store that the mutations reach, \<open>typing_one_run\<close>), the
  call succeeds, returns the id of the new message, and appends a message that carries
  the body unchanged, the given timestamp and \<open>isDeleted = False\<close>.
\<close>

theorem sendMessage_stores_any_body:
  assumes "length (query (typingIndicators s)
             (\<lambda>t. ti_userId t = senderId \<and> ti_conversationId t = conversationId)) \<le> 1"
  shows "\<exists>s'. sendMessage conversationId senderId body now s = (Inr (length (messages s)), s') \<and>
              messages s' = messages s @
                [Some \<lparr>m_conversationId = conversationId, m_senderId = senderId, m_body = body,
                       m_createdAt = now, m_isDeleted = False\<rparr>]"
proof -
  let ?q = "query (typingIndicators s)
             (\<lambda>t. ti_userId t = senderId \<and> ti_conversationId t = conversationId)"
  from assms consider "?q = []" | x where "?q = [x]"
    by (cases ?q; cases "tl ?q") auto
  then show ?thesis
    by cases (simp_all add: sendMessage_def sendMessage_handler_def mutation_def db_insert_def
                unique_def)
qed

theorem sendMessage_stores_any_body_witness:
  "\<exists>s'. sendMessage 0 0 ''   '' 1000 two_users = (Inr 0, s') \<and>
         messages s' = [Some \<lparr>m_conversationId = 0, m_senderId = 0, m_body = ''   '',
                              m_createdAt = 1000, m_isDeleted = False\<rparr>]"
proof -
  have h: "length (query (typingIndicators two_users)
             (\<lambda>t. ti_userId t = 0 \<and> ti_conversationId t = 0)) \<le> 1"
    by code_simp
  have m: "messages two_users = []" by code_simp
  show ?thesis
    using sendMessage_stores_any_body [OF h, of "''   ''" 1000] by (simp add: m)
qed

section \<open>Marking a conversation read without a membership\<close>

text \<open>
  C8 (as stated, refuted).  The claim is that \<^verbatim>\<open>markAsRead\<close> fails when the user
  has no membership in the conversation.  User 0 has no membership in conversation 7 of
  the store with two users, and the call returns normally with the store as it was.
\<close>

theorem markAsRead_missing_counterexample:
  "memberships_of two_users 0 7 = [] \<and> markAsRead 0 7 1000 two_users = (Inr (), two_users)"
  by code_simp

text \<open>
  C8 (amended).  When no membership exists for the user and the conversation,
  \<^verbatim>\<open>markAsRead\<close> completes without an error and without a write.  Of the
  mutations it is \<^verbatim>\<open>deleteMessage\<close> that checks its target: for a message that does
  not exist it fails with the not-found error, again without a write.
\<close>

theorem markAsRead_missing_noop:
  "(memberships_of s userId conversationId = [] \<longrightarrow>
      markAsRead_handler userId conversationId now s = (Inr (), s) \<and>
      markAsRead userId conversationId now s = (Inr (), s))
   \<and> (db_get (messages s) messageId = None \<longrightarrow>
      deleteMessage_handler messageId userId s = (Inl MessageNotFound, s) \<and>
      deleteMessage messageId userId s = (Inl MessageNotFound, s))"
  by (simp add: markAsRead_def markAsRead_handler_def deleteMessage_def deleteMessage_handler_def
        mutation_def memberships_of_def unique_def)

theorem markAsRead_missing_noop_witness:
  "markAsRead_handler 0 7 1000 two_users = (Inr (), two_users) \<and>
   markAsRead 0 7 1000 two_users = (Inr (), two_users) \<and>
   deleteMessage 3 0 two_users = (Inl MessageNotFound, two_users)"
proof -
  have h: "memberships_of two_users 0 7 = []" by code_simp
  have g: "db_get (messages two_users) 3 = None" by code_simp
  show ?thesis
    using markAsRead_missing_noop [where s = two_users and userId = 0 and conversationId = 7
        and now = 1000 and messageId = 3] h g by simp
qed

section \<open>Creating a group with repeated member ids\<close>

text \<open>
  C7.  \<^verbatim>\<open>createGroupConversation\<close> on the store with two users, with creator 0 and
  member ids \<open>[1, 1]\<close>: the new conversation 0 gets three memberships, two of them for
  user 1; with member ids \<open>[1, 0]\<close> the creator gets two.  Afterwards
  \<^verbatim>\<open>markAsRead\<close> of user 1 for that conversation fails, because its
  \<^verbatim>\<open>.unique()\<close> lookup of the membership finds two.
\<close>

theorem createGroupConversation_duplicates:
  "fst (createGroupConversation ''team'' [1, 1] 0 1000 1000 two_users) = Inr 0 \<and>
   member_users (snd (createGroupConversation ''team'' [1, 1] 0 1000 1000 two_users)) 0 = [0, 1, 1] \<and>
   length (memberships_of (snd (createGroupConversation ''team'' [1, 1] 0 1000 1000 two_users)) 1 0) = 2 \<and>
   member_users (snd (createGroupConversation ''team'' [1, 0] 0 1000 1000 two_users)) 0 = [0, 1, 0] \<and>
   fst (markAsRead 1 0 2000 (snd (createGroupConversation ''team'' [1, 1] 0 1000 1000 two_users)))
     = Inl NotUnique"
  by code_simp

section \<open>The list of conversations of a user\<close>

lemma set_map_filter: "set (List.map_filter f xs) = {y. \<exists>x \<in> set xs. f x = Some y}"
  by (induction xs) (auto split: option.splits)

lemma set_getUserConversations:
  "set (getUserConversations U s) =
     {e. \<exists>m \<in> set (query (conversationMembers s) (\<lambda>m. cm_userId m = U)). enrich s U m = Some e}"
  by (simp add: getUserConversations_def set_map_filter)

lemma last_filter_id: "xs \<noteq> [] \<Longrightarrow> P (last xs) \<Longrightarrow> last (filter P xs) = last xs"
  by (cases xs rule: rev_cases) simp_all

lemma sorted_le_last: "sorted xs \<Longrightarrow> x \<in> set xs \<Longrightarrow> x \<le> last xs"
  by (cases xs rule: rev_cases) (auto simp: sorted_append)

lemma first_rev: "first (rev xs) = (if xs = [] then None else Some (last xs))"
  by (cases xs rule: rev_cases) (simp_all add: first_def)

lemma sorted_docs_from: "sorted (map fst (docs_from n t))"
proof (induction n t rule: docs_from.induct)
  case (3 n r t)
  have "\<forall>d \<in> set (docs_from (Suc n) t). n \<le> fst d"
    using docs_from_fst_ge [of _ "Suc n" t] by fastforce
  then show ?case using 3 by simp
qed simp_all

lemma sorted_query: "sorted (map fst (query t p))"
  by (simp add: query_def docs_def sorted_filter sorted_docs_from)

lemma last_sort_key_max:
  assumes "xs \<noteq> []" and "x \<in> set xs"
  shows "f x \<le> f (last (sort_key f xs))"
proof -
  have ne: "sort_key f xs \<noteq> []" using assms(1) by (metis length_sort length_0_conv)
  have "f x \<in> set (map f (sort_key f xs))" using assms(2) by simp
  then have "f x \<le> last (map f (sort_key f xs))"
    using sorted_le_last [of "map f (sort_key f xs)" "f x"] by simp
  then show ?thesis using ne by (simp add: last_map)
qed

lemma last_sort_key_stable:
  assumes "xs \<noteq> []"
  shows "last (sort_key f xs) = last (filter (\<lambda>y. f y = f (last (sort_key f xs))) xs)"
proof -
  let ?zs = "sort_key f xs"
  have ne: "?zs \<noteq> []" using assms by (metis length_sort length_0_conv)
  have "last (filter (\<lambda>y. f y = f (last ?zs)) ?zs) = last ?zs"
    using ne by (simp add: last_filter_id)
  then show ?thesis by (simp add: sort_key_stable)
qed

lemma last_filter_fst_max:
  assumes "sorted (map fst xs)" and "x \<in> set xs" and "P x"
  shows "fst x \<le> fst (last (filter P xs))"
proof -
  have s: "sorted (map fst (filter P xs))" using assms(1) by (rule sorted_filter)
  have m: "x \<in> set (filter P xs)" using assms by simp
  then have ne: "filter P xs \<noteq> []" by (metis empty_iff empty_set)
  have "fst x \<in> set (map fst (filter P xs))" using m by (metis image_eqI set_map)
  then have "fst x \<le> last (map fst (filter P xs))"
    using sorted_le_last [OF s] by blast
  then show ?thesis using ne by (simp add: last_map)
qed

text \<open>The newest message of a conversation, as the index gives it.\<close>

lemma latest_message:
  assumes "db_get (messages s) i = Some msg" and "m_conversationId msg = c"
  shows "\<exists>j latest. first (rev (by_conversation_createdAt s c)) = Some (j, latest) \<and>
           db_get (messages s) j = Some latest \<and> m_conversationId latest = c \<and>
           m_createdAt msg \<le> m_createdAt latest \<and>
           (m_createdAt msg = m_createdAt latest \<longrightarrow> i \<le> j)"
proof -
  let ?q = "query (messages s) (\<lambda>m. m_conversationId m = c)"
  let ?f = "\<lambda>d::message doc. m_createdAt (snd d)"
  let ?l = "last (sort_key ?f ?q)"
  have mem: "(i, msg) \<in> set ?q" using assms by (simp add: query_mem)
  then have ne: "?q \<noteq> []" by auto
  then have ne': "sort_key ?f ?q \<noteq> []" by (metis length_sort length_0_conv)
  have "?l \<in> set (sort_key ?f ?q)" using ne' by (rule last_in_set)
  then have lq: "?l \<in> set ?q" by simp
  have le: "?f (i, msg) \<le> ?f ?l" using ne mem by (rule last_sort_key_max)
  have tie: "fst (i, msg) \<le> fst ?l" if "?f (i, msg) = ?f ?l"
  proof -
    have "fst (i, msg) \<le> fst (last (filter (\<lambda>y. ?f y = ?f ?l) ?q))"
      using sorted_query mem that by (rule last_filter_fst_max)
    then show ?thesis using last_sort_key_stable [OF ne, of ?f] by simp
  qed
  have "first (rev (by_conversation_createdAt s c)) = Some (fst ?l, snd ?l)"
    using ne' by (simp add: first_rev by_conversation_createdAt_def)
  moreover have "db_get (messages s) (fst ?l) = Some (snd ?l)" "m_conversationId (snd ?l) = c"
    using lq by (simp_all add: query_mem)
  ultimately show ?thesis using le tie by (intro exI [of _ "fst ?l"] exI [of _ "snd ?l"]) simp
qed

lemma latest_message_none:
  assumes "\<forall>i msg. db_get (messages s) i = Some msg \<longrightarrow> m_conversationId msg \<noteq> c"
  shows "first (rev (by_conversation_createdAt s c)) = None"
proof -
  have "query (messages s) (\<lambda>m. m_conversationId m = c) = []"
  proof (rule ccontr)
    assume "query (messages s) (\<lambda>m. m_conversationId m = c) \<noteq> []"
    then obtain d where "d \<in> set (query (messages s) (\<lambda>m. m_conversationId m = c))"
      by (meson last_in_set)
    then show False using assms by (auto simp: query_mem)
  qed
  then show ?thesis by (simp add: by_conversation_createdAt_def first_def)
qed

lemma enrich_Some:
  "enrich s U m = Some e \<Longrightarrow>
     fst (e_conversation e) = cm_conversationId (snd m) \<and>
     db_get (conversations s) (cm_conversationId (snd m)) = Some (snd (e_conversation e)) \<and>
     e_latestMessage e = first (rev (by_conversation_createdAt s (cm_conversationId (snd m)))) \<and>
     e_unreadCount e =
       length (filter (\<lambda>msg. m_createdAt (snd msg) > cm_lastReadAt (snd m) \<and> m_senderId (snd msg) \<noteq> U)
                 (by_conversation_createdAt s (cm_conversationId (snd m))))"
  by (auto simp: enrich_def Let_def split: option.splits)

lemma enrich_exists:
  "db_get (conversations s) (cm_conversationId (snd m)) = Some conv \<Longrightarrow> \<exists>e. enrich s U m = Some e"
  by (simp add: enrich_def Let_def)

text \<open>
  C6 (amended).  Every conversation that the user has a membership in, and that exists,
  has an entry in the result of \<^verbatim>\<open>getUserConversations\<close>.  The preview of an
  entry is absent when the conversation has no message; otherwise it is a message of the
  conversation whose \<open>createdAt\<close> is greatest among all messages of the conversation,
  soft-deleted or not, and among those with that \<open>createdAt\<close> the one created last.
\<close>

theorem preview_is_newest_message:
  "(\<forall>m \<in> set (docs (conversationMembers s)). cm_userId (snd m) = U \<and>
       db_get (conversations s) (cm_conversationId (snd m)) \<noteq> None \<longrightarrow>
       (\<exists>e \<in> set (getUserConversations U s). fst (e_conversation e) = cm_conversationId (snd m)))
   \<and> (\<forall>e \<in> set (getUserConversations U s).
        ((\<forall>i msg. db_get (messages s) i = Some msg \<longrightarrow> m_conversationId msg \<noteq> fst (e_conversation e))
           \<longrightarrow> e_latestMessage e = None) \<and>
        (\<forall>i msg. db_get (messages s) i = Some msg \<and> m_conversationId msg = fst (e_conversation e) \<longrightarrow>
           (\<exists>j latest. e_latestMessage e = Some (j, latest) \<and>
              db_get (messages s) j = Some latest \<and>
              m_conversationId latest = fst (e_conversation e) \<and>
              m_createdAt msg \<le> m_createdAt latest \<and>
              (m_createdAt msg = m_createdAt latest \<longrightarrow> i \<le> j))))"
proof (intro conjI ballI impI)
  fix m assume m: "m \<in> set (docs (conversationMembers s))"
    and h: "cm_userId (snd m) = U \<and> db_get (conversations s) (cm_conversationId (snd m)) \<noteq> None"
  then obtain e where e: "enrich s U m = Some e" using enrich_exists by blast
  have "m \<in> set (query (conversationMembers s) (\<lambda>m. cm_userId m = U))"
    using m h by (simp add: query_def)
  then have "e \<in> set (getUserConversations U s)"
    using e by (auto simp: set_getUserConversations)
  then show "\<exists>e \<in> set (getUserConversations U s). fst (e_conversation e) = cm_conversationId (snd m)"
    using enrich_Some [OF e] by auto
next
  fix e assume "e \<in> set (getUserConversations U s)"
    and "\<forall>i msg. db_get (messages s) i = Some msg \<longrightarrow> m_conversationId msg \<noteq> fst (e_conversation e)"
  then show "e_latestMessage e = None"
    using latest_message_none [of s "fst (e_conversation e)"] enrich_Some
    by (auto simp: set_getUserConversations)
next
  fix e assume e: "e \<in> set (getUserConversations U s)"
  then obtain m where m: "enrich s U m = Some e" by (auto simp: set_getUserConversations)
  show "\<forall>i msg. db_get (messages s) i = Some msg \<and> m_conversationId msg = fst (e_conversation e) \<longrightarrow>
           (\<exists>j latest. e_latestMessage e = Some (j, latest) \<and>
              db_get (messages s) j = Some latest \<and>
              m_conversationId latest = fst (e_conversation e) \<and>
              m_createdAt msg \<le> m_createdAt latest \<and>
              (m_createdAt msg = m_createdAt latest \<longrightarrow> i \<le> j))"
    using latest_message [of s _ _ "fst (e_conversation e)"] enrich_Some [OF m] by auto
qed

text \<open>
  C6 (as stated, refuted).  The claim is that the preview is the newest message that is
  not soft-deleted.  In the example, conversation 0 holds the message \<open>first\<close>, not
  deleted, and the newer message \<open>second\<close>, deleted; the preview that user 1 gets for
  conversation 0 is the deleted message.
\<close>

theorem preview_deleted_counterexample:
  "map e_latestMessage (getUserConversations 1 chat_example) =
     [Some (1, \<lparr>m_conversationId = 0, m_senderId = 0, m_body = ''second'', m_createdAt = 2000,
                 m_isDeleted = True\<rparr>)] \<and>
   map (\<lambda>e. fst (e_conversation e)) (getUserConversations 1 chat_example) = [0] \<and>
   db_get (messages chat_example) 0 =
     Some \<lparr>m_conversationId = 0, m_senderId = 0, m_body = ''first'', m_createdAt = 1000,
           m_isDeleted = False\<rparr>"
  by code_simp

theorem preview_is_newest_message_witness:
  "\<exists>e \<in> set (getUserConversations 1 chat_example). fst (e_conversation e) = 0 \<and>
     (\<exists>j latest. e_latestMessage e = Some (j, latest) \<and> db_get (messages chat_example) j = Some latest \<and>
        1000 \<le> m_createdAt latest)"
proof -
  have m: "(1, \<lparr>cm_conversationId = 0, cm_userId = 1, cm_lastReadAt = 500\<rparr>)
             \<in> set (docs (conversationMembers chat_example))"
    by code_simp
  have c: "db_get (conversations chat_example) 0 \<noteq> None" by code_simp
  have g: "db_get (messages chat_example) 0 =
     Some \<lparr>m_conversationId = 0, m_senderId = 0, m_body = ''first'', m_createdAt = 1000,
           m_isDeleted = False\<rparr>" by code_simp
  let ?M = "(1, \<lparr>cm_conversationId = 0, cm_userId = 1, cm_lastReadAt = 500\<rparr>) :: conversationMember doc"
  note t = preview_is_newest_message [of chat_example 1]
  have t1: "cm_userId (snd ?M) = 1 \<and>
       db_get (conversations chat_example) (cm_conversationId (snd ?M)) \<noteq> None \<longrightarrow>
       (\<exists>e \<in> set (getUserConversations 1 chat_example).
          fst (e_conversation e) = cm_conversationId (snd ?M))"
    using conjunct1 [OF t] m by (rule bspec)
  then obtain e where e: "e \<in> set (getUserConversations 1 chat_example)"
      "fst (e_conversation e) = 0"
    using c by auto
  have t2: "\<forall>i msg. db_get (messages chat_example) i = Some msg \<and>
           m_conversationId msg = fst (e_conversation e) \<longrightarrow>
           (\<exists>j latest. e_latestMessage e = Some (j, latest) \<and>
              db_get (messages chat_example) j = Some latest \<and>
              m_conversationId latest = fst (e_conversation e) \<and>
              m_createdAt msg \<le> m_createdAt latest \<and>
              (m_createdAt msg = m_createdAt latest \<longrightarrow> i \<le> j))"
    using bspec [OF conjunct2 [OF t] e(1)] by (rule conjunct2)
  have "\<exists>j latest. e_latestMessage e = Some (j, latest) \<and>
      db_get (messages chat_example) j = Some latest \<and> 1000 \<le> m_createdAt latest"
    using spec [OF spec [OF t2], of 0 "\<lparr>m_conversationId = 0, m_senderId = 0, m_body = ''first'',
       m_createdAt = 1000, m_isDeleted = False\<rparr>"] g e(2)
    by auto
  with e show ?thesis by blast
qed

section \<open>Unread counts\<close>

lemma card_docs_filter:
  "card {i. \<exists>r. db_get t i = Some r \<and> Q r} = length (filter (\<lambda>d. Q (snd d)) (docs t))"
proof -
  let ?xs = "filter (\<lambda>d. Q (snd d)) (docs t)"
  have "{i. \<exists>r. db_get t i = Some r \<and> Q r} = set (map fst ?xs)"
    using docs_mem [of _ _ t] by (auto simp: image_iff)
  moreover have "distinct (map fst ?xs)"
    using distinct_docs [of t] by (rule distinct_map_filter)
  ultimately show ?thesis by (simp add: distinct_card del: set_map)
qed

lemma unread_count_spec:
  "length (filter (\<lambda>msg. m_createdAt (snd msg) > lr \<and> m_senderId (snd msg) \<noteq> U)
             (by_conversation_createdAt s c)) = unread_spec s c U lr"
proof -
  have "unread_spec s c U lr =
          length (filter (\<lambda>d. m_conversationId (snd d) = c \<and> m_createdAt (snd d) > lr \<and>
                               m_senderId (snd d) \<noteq> U) (docs (messages s)))"
    unfolding unread_spec_def by (rule card_docs_filter)
  then show ?thesis
    by (simp add: by_conversation_createdAt_def filter_sort query_def conj_commute conj_left_commute)
qed

lemma enrich_unreadCount:
  "enrich s U m = Some e \<Longrightarrow>
     e_unreadCount e = unread_spec s (cm_conversationId (snd m)) U (cm_lastReadAt (snd m))"
  using enrich_Some [of s U m e] by (simp add: unread_count_spec)

lemma unreadCount_of_entry:
  assumes "e \<in> set (getUserConversations U s)"
  shows "\<exists>m \<in> set (memberships_of s U (fst (e_conversation e))).
           e_unreadCount e = unread_spec s (fst (e_conversation e)) U (cm_lastReadAt (snd m))"
proof -
  from assms obtain m where m: "m \<in> set (query (conversationMembers s) (\<lambda>m. cm_userId m = U))"
      "enrich s U m = Some e"
    by (auto simp: set_getUserConversations)
  have c: "fst (e_conversation e) = cm_conversationId (snd m)" using enrich_Some [OF m(2)] by simp
  have "m \<in> set (memberships_of s U (fst (e_conversation e)))"
    using m(1) c by (simp add: memberships_of_def query_def)
  then show ?thesis using enrich_unreadCount [OF m(2)] c by auto
qed

lemma unreadCount_of_membership:
  assumes "m \<in> set (docs (conversationMembers s))" and "cm_userId (snd m) = U"
    and "db_get (conversations s) (cm_conversationId (snd m)) \<noteq> None"
  shows "\<exists>e \<in> set (getUserConversations U s). fst (e_conversation e) = cm_conversationId (snd m) \<and>
           e_unreadCount e = unread_spec s (cm_conversationId (snd m)) U (cm_lastReadAt (snd m))"
proof -
  from assms(3) obtain e where e: "enrich s U m = Some e" using enrich_exists by blast
  have "m \<in> set (query (conversationMembers s) (\<lambda>m. cm_userId m = U))"
    using assms(1,2) by (simp add: query_def)
  then have "e \<in> set (getUserConversations U s)"
    using e by (auto simp: set_getUserConversations)
  then show ?thesis using enrich_Some [OF e] enrich_unreadCount [OF e] by auto
qed

lemma unread_spec_zero:
  assumes "\<forall>i msg. db_get (messages s) i = Some msg \<and> m_conversationId msg = c \<and> m_senderId msg \<noteq> U
             \<longrightarrow> m_createdAt msg \<le> t"
  shows "unread_spec s c U t = 0"
proof -
  have "{i. \<exists>msg. db_get (messages s) i = Some msg \<and> m_conversationId msg = c \<and>
                 m_createdAt msg > t \<and> m_senderId msg \<noteq> U} = {}"
    using assms by fastforce
  then show ?thesis by (simp only: unread_spec_def card.empty)
qed

lemma markAsRead_memberships:
  assumes "markAsRead U C t s = (Inr (), s')" and "memberships_of s U C \<noteq> []"
  shows "messages s' = messages s \<and> (\<forall>m \<in> set (memberships_of s' U C). cm_lastReadAt (snd m) = t)"
proof -
  let ?q = "query (conversationMembers s) (\<lambda>m. cm_userId m = U \<and> cm_conversationId m = C)"
  from assms obtain x where x: "?q = [x]"
    by (cases ?q; cases "tl ?q")
       (auto simp: markAsRead_def markAsRead_handler_def mutation_def memberships_of_def unique_def)
  then have s': "s' = s\<lparr>conversationMembers :=
                  db_patch (conversationMembers s) (fst x) (\<lambda>m. m\<lparr>cm_lastReadAt := t\<rparr>)\<rparr>"
    using assms(1) by (simp add: markAsRead_def markAsRead_handler_def mutation_def unique_def)
  have "memberships_of s' U C = [(fst x, (snd x)\<lparr>cm_lastReadAt := t\<rparr>)]"
    unfolding memberships_of_def s' by (simp add: query_patch x)
  then show ?thesis using s' by simp
qed

lemma sendMessage_unread_spec:
  assumes "sendMessage C U body now s = (Inr mid, s')"
  shows "unread_spec s' c U lr = unread_spec s c U lr"
proof -
  have "messages s' = messages s @ [Some \<lparr>m_conversationId = C, m_senderId = U, m_body = body,
                       m_createdAt = now, m_isDeleted = False\<rparr>]"
    using assms
    by (auto simp: sendMessage_def sendMessage_handler_def mutation_def db_insert_def Let_def
             split: sum.splits option.splits)
  then have "\<And>i msg. (db_get (messages s') i = Some msg \<and> m_senderId msg \<noteq> U)
                 = (db_get (messages s) i = Some msg \<and> m_senderId msg \<noteq> U)"
    by (auto simp: db_get_def nth_append split: if_splits)
  then have "{i. \<exists>msg. db_get (messages s') i = Some msg \<and> m_conversationId msg = c \<and>
                 m_createdAt msg > lr \<and> m_senderId msg \<noteq> U}
           = {i. \<exists>msg. db_get (messages s) i = Some msg \<and> m_conversationId msg = c \<and>
                 m_createdAt msg > lr \<and> m_senderId msg \<noteq> U}"
    by blast
  then show ?thesis by (simp add: unread_spec_def)
qed

lemma sendMessage_tables:
  assumes "sendMessage C U body now s = (Inr mid, s')"
  shows "conversations s' = conversations s \<and> conversationMembers s' = conversationMembers s"
  using assms
  by (auto simp: sendMessage_def sendMessage_handler_def mutation_def db_insert_def Let_def
           split: sum.splits option.splits)

lemma map_map_filter_cong:
  "(\<And>x. x \<in> set xs \<Longrightarrow> map_option g (f x) = map_option g (f' x)) \<Longrightarrow>
   map g (List.map_filter f xs) = map g (List.map_filter f' xs)"
proof (induction xs)
  case Nil
  show ?case by simp
next
  case (Cons x xs)
  have "map_option g (f x) = map_option g (f' x)" using Cons.prems by simp
  moreover have "map g (List.map_filter f xs) = map g (List.map_filter f' xs)"
    using Cons by simp
  ultimately show ?case by (cases "f x"; cases "f' x") simp_all
qed

lemma sendMessage_enrich:
  assumes "sendMessage C U body now s = (Inr mid, s')"
  shows "map_option (\<lambda>e. (fst (e_conversation e), e_unreadCount e)) (enrich s' U m)
       = map_option (\<lambda>e. (fst (e_conversation e), e_unreadCount e)) (enrich s U m)"
proof (cases "db_get (conversations s) (cm_conversationId (snd m))")
  case None
  then show ?thesis using sendMessage_tables [OF assms] by (simp add: enrich_def)
next
  case (Some conv)
  then obtain e where e: "enrich s U m = Some e" using enrich_exists by blast
  from Some have "db_get (conversations s') (cm_conversationId (snd m)) = Some conv"
    using sendMessage_tables [OF assms] by simp
  then obtain e' where e': "enrich s' U m = Some e'" using enrich_exists by blast
  show ?thesis
    using enrich_Some [OF e] enrich_Some [OF e'] enrich_unreadCount [OF e] enrich_unreadCount [OF e']
      sendMessage_unread_spec [OF assms] e e'
    by simp
qed

lemma sendMessage_own_counts:
  assumes "sendMessage C U body now s = (Inr mid, s')"
  shows "mset (map (\<lambda>e. (fst (e_conversation e), e_unreadCount e)) (getUserConversations U s'))
       = mset (map (\<lambda>e. (fst (e_conversation e), e_unreadCount e)) (getUserConversations U s))"
proof -
  let ?g = "\<lambda>e. (fst (e_conversation e), e_unreadCount e)"
  let ?ms = "query (conversationMembers s) (\<lambda>m. cm_userId m = U)"
  have "map ?g (List.map_filter (enrich s' U) ?ms) = map ?g (List.map_filter (enrich s U) ?ms)"
    by (rule map_map_filter_cong) (rule sendMessage_enrich [OF assms])
  then have "mset (map ?g (List.map_filter (enrich s' U) ?ms))
           = mset (map ?g (List.map_filter (enrich s U) ?ms))"
    by simp
  then show ?thesis
    using sendMessage_tables [OF assms] by (simp add: getUserConversations_def)
qed

lemma markAsRead_one:
  assumes "memberships_of s U C = [d]"
  shows "\<exists>s'. markAsRead U C t s = (Inr (), s') \<and>
           memberships_of s' U C = [(fst d, (snd d)\<lparr>cm_lastReadAt := t\<rparr>)] \<and>
           messages s' = messages s \<and> conversations s' = conversations s"
proof -
  let ?s' = "s\<lparr>conversationMembers :=
               db_patch (conversationMembers s) (fst d) (\<lambda>m. m\<lparr>cm_lastReadAt := t\<rparr>)\<rparr>"
  have q: "query (conversationMembers s) (\<lambda>m. cm_userId m = U \<and> cm_conversationId m = C) = [d]"
    using assms by (simp add: memberships_of_def)
  have r: "markAsRead U C t s = (Inr (), ?s')"
    by (simp add: markAsRead_def markAsRead_handler_def mutation_def unique_def q)
  have "memberships_of ?s' U C = [(fst d, (snd d)\<lparr>cm_lastReadAt := t\<rparr>)]"
    unfolding memberships_of_def by (simp add: query_patch q)
  then show ?thesis using r by (intro exI [of _ ?s']) simp
qed

lemma markAsRead_then_count:
  assumes "memberships_of s U C = [d]"
  shows "\<exists>s'. markAsRead U C t s = (Inr (), s') \<and>
           memberships_of s' U C = [(fst d, (snd d)\<lparr>cm_lastReadAt := t\<rparr>)] \<and>
           (db_get (conversations s) C \<noteq> None \<longrightarrow>
              (\<exists>e \<in> set (getUserConversations U s'). fst (e_conversation e) = C)) \<and>
           (\<forall>e \<in> set (getUserConversations U s'). fst (e_conversation e) = C \<longrightarrow>
              e_unreadCount e = unread_spec s C U t \<and>
              ((\<forall>i msg. db_get (messages s) i = Some msg \<and> m_conversationId msg = C \<and>
                        m_senderId msg \<noteq> U \<longrightarrow> m_createdAt msg \<le> t) \<longrightarrow> e_unreadCount e = 0))"
proof -
  from markAsRead_one [OF assms, of t] obtain s' where
    s': "markAsRead U C t s = (Inr (), s')"
        "memberships_of s' U C = [(fst d, (snd d)\<lparr>cm_lastReadAt := t\<rparr>)]"
        "messages s' = messages s" "conversations s' = conversations s"
    by blast
  let ?m = "(fst d, (snd d)\<lparr>cm_lastReadAt := t\<rparr>)"
  have u: "unread_spec s' C U t = unread_spec s C U t" by (simp add: unread_spec_def s'(3))
  have mem: "?m \<in> set (memberships_of s' U C)" using s'(2) by simp
  then have m: "?m \<in> set (docs (conversationMembers s'))" "cm_userId (snd ?m) = U"
      "cm_conversationId (snd ?m) = C"
    by (simp_all add: memberships_of_def query_def)
  have 1: "\<exists>e \<in> set (getUserConversations U s'). fst (e_conversation e) = C"
    if "db_get (conversations s) C \<noteq> None"
  proof -
    have "db_get (conversations s') (cm_conversationId (snd ?m)) \<noteq> None"
      using that m(3) s'(4) by simp
    from unreadCount_of_membership [OF m(1,2) this] show ?thesis using m(3) by auto
  qed
  have 2: "e_unreadCount e = unread_spec s C U t"
    if "e \<in> set (getUserConversations U s')" "fst (e_conversation e) = C" for e
    using unreadCount_of_entry [OF that(1)] that(2) s'(2) u by auto
  have 3: "e_unreadCount e = 0"
    if "e \<in> set (getUserConversations U s')" "fst (e_conversation e) = C"
      "\<forall>i msg. db_get (messages s) i = Some msg \<and> m_conversationId msg = C \<and>
                        m_senderId msg \<noteq> U \<longrightarrow> m_createdAt msg \<le> t" for e
    using 2 [OF that(1,2)] unread_spec_zero [OF that(3)] by simp
  show ?thesis
    using s'(1,2) 1 2 3 by (intro exI [of _ s']) blast
qed

text \<open>
  C3.  Every entry of \<^verbatim>\<open>getUserConversations\<close> for a user comes from one of the
  user's memberships in the entry's conversation, and its \<open>unreadCount\<close> is the number
  of messages of that conversation created strictly after the membership's
  \<open>lastReadAt\<close> and not sent by the user; every membership of the user in an existing
  conversation has such an entry.  After a \<^verbatim>\<open>markAsRead\<close> at time \<open>t\<close> that found
  the membership, the count reported for the conversation is the number of messages of
  others created after \<open>t\<close>, hence 0 when all of them were created at or before \<open>t\<close>.
  A message that the user sends changes none of the user's unread counts.  For a user
  with one membership in the conversation, \<^verbatim>\<open>markAsRead\<close> at time \<open>t\<close> succeeds and
  sets the \<open>lastReadAt\<close> of that membership to \<open>t\<close>, the conversation has an entry in
  the list afterwards when it exists, and the count of every such entry is as said.
\<close>

theorem unreadCount_correct:
  "(\<forall>e \<in> set (getUserConversations U s).
      \<exists>m \<in> set (memberships_of s U (fst (e_conversation e))).
        e_unreadCount e = unread_spec s (fst (e_conversation e)) U (cm_lastReadAt (snd m)))
   \<and> (\<forall>m \<in> set (docs (conversationMembers s)).
        cm_userId (snd m) = U \<and> db_get (conversations s) (cm_conversationId (snd m)) \<noteq> None \<longrightarrow>
        (\<exists>e \<in> set (getUserConversations U s).
           fst (e_conversation e) = cm_conversationId (snd m) \<and>
           e_unreadCount e = unread_spec s (cm_conversationId (snd m)) U (cm_lastReadAt (snd m))))
   \<and> (\<forall>C t s'. markAsRead U C t s = (Inr (), s') \<and> memberships_of s U C \<noteq> [] \<longrightarrow>
        (\<forall>e \<in> set (getUserConversations U s'). fst (e_conversation e) = C \<longrightarrow>
           e_unreadCount e = unread_spec s C U t \<and>
           ((\<forall>i msg. db_get (messages s) i = Some msg \<and> m_conversationId msg = C \<and>
                     m_senderId msg \<noteq> U \<longrightarrow> m_createdAt msg \<le> t) \<longrightarrow> e_unreadCount e = 0)))
   \<and> (\<forall>C body now mid s'. sendMessage C U body now s = (Inr mid, s') \<longrightarrow>
        (\<forall>c lastReadAt. unread_spec s' c U lastReadAt = unread_spec s c U lastReadAt) \<and>
        mset (map (\<lambda>e. (fst (e_conversation e), e_unreadCount e)) (getUserConversations U s'))
          = mset (map (\<lambda>e. (fst (e_conversation e), e_unreadCount e)) (getUserConversations U s)))
   \<and> (\<forall>C t d. memberships_of s U C = [d] \<longrightarrow>
        (\<exists>s'. markAsRead U C t s = (Inr (), s') \<and>
           memberships_of s' U C = [(fst d, (snd d)\<lparr>cm_lastReadAt := t\<rparr>)] \<and>
           (db_get (conversations s) C \<noteq> None \<longrightarrow>
              (\<exists>e \<in> set (getUserConversations U s'). fst (e_conversation e) = C)) \<and>
           (\<forall>e \<in> set (getUserConversations U s'). fst (e_conversation e) = C \<longrightarrow>
              e_unreadCount e = unread_spec s C U t \<and>
              ((\<forall>i msg. db_get (messages s) i = Some msg \<and> m_conversationId msg = C \<and>
                        m_senderId msg \<noteq> U \<longrightarrow> m_createdAt msg \<le> t) \<longrightarrow> e_unreadCount e = 0))))"
proof (intro conjI allI impI ballI)
  fix e assume "e \<in> set (getUserConversations U s)"
  then show "\<exists>m \<in> set (memberships_of s U (fst (e_conversation e))).
        e_unreadCount e = unread_spec s (fst (e_conversation e)) U (cm_lastReadAt (snd m))"
    by (rule unreadCount_of_entry)
next
  fix m assume "m \<in> set (docs (conversationMembers s))"
    and "cm_userId (snd m) = U \<and> db_get (conversations s) (cm_conversationId (snd m)) \<noteq> None"
  then show "\<exists>e \<in> set (getUserConversations U s).
           fst (e_conversation e) = cm_conversationId (snd m) \<and>
           e_unreadCount e = unread_spec s (cm_conversationId (snd m)) U (cm_lastReadAt (snd m))"
    using unreadCount_of_membership by blast
next
  fix C t s' e
  assume a: "markAsRead U C t s = (Inr (), s') \<and> memberships_of s U C \<noteq> []"
    and e: "e \<in> set (getUserConversations U s')" "fst (e_conversation e) = C"
  from a have m: "messages s' = messages s"
      "\<forall>m \<in> set (memberships_of s' U C). cm_lastReadAt (snd m) = t"
    using markAsRead_memberships by blast+
  have u: "unread_spec s' C U t = unread_spec s C U t" by (simp add: unread_spec_def m(1))
  show "e_unreadCount e = unread_spec s C U t"
    using unreadCount_of_entry [OF e(1)] e(2) m(2) u by auto
  then show "e_unreadCount e = 0"
    if "\<forall>i msg. db_get (messages s) i = Some msg \<and> m_conversationId msg = C \<and>
                     m_senderId msg \<noteq> U \<longrightarrow> m_createdAt msg \<le> t"
    using unread_spec_zero [OF that] by simp
next
  fix C body now mid s' c lastReadAt
  assume "sendMessage C U body now s = (Inr mid, s')"
  then show "unread_spec s' c U lastReadAt = unread_spec s c U lastReadAt"
    by (rule sendMessage_unread_spec)
next
  fix C body now mid s'
  assume "sendMessage C U body now s = (Inr mid, s')"
  then show "mset (map (\<lambda>e. (fst (e_conversation e), e_unreadCount e)) (getUserConversations U s'))
          = mset (map (\<lambda>e. (fst (e_conversation e), e_unreadCount e)) (getUserConversations U s))"
    by (rule sendMessage_own_counts)
next
  fix C t d
  assume "memberships_of s U C = [d]"
  then show "\<exists>s'. markAsRead U C t s = (Inr (), s') \<and>
           memberships_of s' U C = [(fst d, (snd d)\<lparr>cm_lastReadAt := t\<rparr>)] \<and>
           (db_get (conversations s) C \<noteq> None \<longrightarrow>
              (\<exists>e \<in> set (getUserConversations U s'). fst (e_conversation e) = C)) \<and>
           (\<forall>e \<in> set (getUserConversations U s'). fst (e_conversation e) = C \<longrightarrow>
              e_unreadCount e = unread_spec s C U t \<and>
              ((\<forall>i msg. db_get (messages s) i = Some msg \<and> m_conversationId msg = C \<and>
                        m_senderId msg \<noteq> U \<longrightarrow> m_createdAt msg \<le> t) \<longrightarrow> e_unreadCount e = 0))"
    by (rule markAsRead_then_count)
qed

theorem unreadCount_correct_witness:
  "unread_spec chat_example 0 1 500 = 2 \<and>
   map e_unreadCount (getUserConversations 1 chat_example) = [2] \<and>
   map e_unreadCount (getUserConversations 0 chat_example) = [0] \<and>
   fst (markAsRead 1 0 3000 chat_example) = Inr () \<and>
   memberships_of (snd (markAsRead 1 0 3000 chat_example)) 1 0
     = [(1, \<lparr>cm_conversationId = 0, cm_userId = 1, cm_lastReadAt = 3000\<rparr>)] \<and>
   map e_unreadCount (getUserConversations 1 (snd (markAsRead 1 0 3000 chat_example))) = [0] \<and>
   map e_unreadCount (getUserConversations 1 (snd (markAsRead 1 0 1000 chat_example))) = [1]"
proof -
  let ?M = "(1, \<lparr>cm_conversationId = 0, cm_userId = 1, cm_lastReadAt = 500\<rparr>) :: conversationMember doc"
  have m: "?M \<in> set (docs (conversationMembers chat_example))" by code_simp
  have c: "db_get (conversations chat_example) 0 \<noteq> None" by code_simp
  have r: "map e_unreadCount (getUserConversations 1 chat_example) = [2]" by code_simp
  have r0: "map e_unreadCount (getUserConversations 0 chat_example) = [0]" by code_simp
  note u = unreadCount_correct [of 1 chat_example]
  note t = conjunct1 [OF conjunct2 [OF u]]
  have "cm_userId (snd ?M) = 1 \<and>
        db_get (conversations chat_example) (cm_conversationId (snd ?M)) \<noteq> None \<longrightarrow>
        (\<exists>e \<in> set (getUserConversations 1 chat_example).
           fst (e_conversation e) = cm_conversationId (snd ?M) \<and>
           e_unreadCount e = unread_spec chat_example (cm_conversationId (snd ?M)) 1
                               (cm_lastReadAt (snd ?M)))"
    using t m by (rule bspec)
  then obtain e where e: "e \<in> set (getUserConversations 1 chat_example)"
      "e_unreadCount e = unread_spec chat_example 0 1 500"
    using c by auto
  from e(1) have "e_unreadCount e \<in> set (map e_unreadCount (getUserConversations 1 chat_example))"
    by (metis image_eqI set_map)
  then have "e_unreadCount e = 2" by (simp only: r) simp
  then have 1: "unread_spec chat_example 0 1 500 = 2" using e(2) by simp
  have one: "memberships_of chat_example 1 0 = [?M]" by code_simp
  note k = conjunct2 [OF conjunct2 [OF conjunct2 [OF conjunct2 [OF u]]]]
  from k [THEN spec, THEN spec, THEN spec, THEN mp, OF one, of 3000] obtain s' where
    s': "markAsRead 1 0 3000 chat_example = (Inr (), s')"
        "memberships_of s' 1 0 = [(fst ?M, (snd ?M)\<lparr>cm_lastReadAt := 3000\<rparr>)]"
    by blast
  have 2: "fst (markAsRead 1 0 3000 chat_example) = Inr ()" using s'(1) by simp
  have 3: "memberships_of (snd (markAsRead 1 0 3000 chat_example)) 1 0
     = [(1, \<lparr>cm_conversationId = 0, cm_userId = 1, cm_lastReadAt = 3000\<rparr>)]"
    using s' by simp
  have 4: "map e_unreadCount (getUserConversations 1 (snd (markAsRead 1 0 3000 chat_example))) = [0]"
    by code_simp
  have 5: "map e_unreadCount (getUserConversations 1 (snd (markAsRead 1 0 1000 chat_example))) = [1]"
    by code_simp
  from 1 r r0 2 3 4 5 show ?thesis by (intro conjI)
qed

section \<open>Reactions: the toggle\<close>

lemma length_db_delete: "length (db_delete t i) = length t"
  by (simp add: db_delete_def)

lemma length_foldl_delete: "length (foldl (\<lambda>t r. db_delete t (fst r)) t xs) = length t"
  by (induction xs arbitrary: t) (simp_all add: length_db_delete)

lemma query_foldl_delete:
  "query (foldl (\<lambda>t r. db_delete t (fst r)) t xs) p
     = filter (\<lambda>d. fst d \<notin> fst ` set xs) (query t p)"
proof (induction xs arbitrary: t)
  case Nil
  show ?case by simp
next
  case (Cons x xs)
  show ?case by (simp add: Cons query_delete conj_commute)
qed

lemma query_same_id:
  assumes "d \<in> set (query t p)" and "d' \<in> set (query t p')" and "fst d = fst d'"
  shows "d = d'"
  using assms by (simp add: query_mem prod_eq_iff)

lemma query_filter_other:
  assumes "\<And>r. p r \<Longrightarrow> \<not> p' r" and "set xs \<subseteq> set (query t p)"
  shows "filter (\<lambda>d. fst d \<notin> fst ` set xs) (query t p') = query t p'"
proof -
  have "fst d' \<notin> fst ` set xs" if d': "d' \<in> set (query t p')" for d'
  proof
    assume "fst d' \<in> fst ` set xs"
    then obtain d where d: "d \<in> set xs" "fst d = fst d'" by auto
    then have "d \<in> set (query t p)" using assms(2) by blast
    then have "d = d'" using d' d(2) by (rule query_same_id)
    then show False using assms(1) [of "snd d"] d' \<open>d \<in> set (query t p)\<close> by (simp add: query_mem)
  qed
  then show ?thesis by (simp add: filter_id_conv)
qed

lemma find_Some_mem: "find P xs = Some x \<Longrightarrow> x \<in> set xs \<and> P x"
  by (induction xs) (auto split: if_splits)

lemma find_None_all: "find P xs = None \<longleftrightarrow> (\<forall>x \<in> set xs. \<not> P x)"
  by (induction xs) auto

lemma toggleReaction_invalid:
  assumes "e \<notin> set ALLOWED_EMOJIS"
  shows "toggleReaction_handler m u e s = (Inl InvalidEmoji, s) \<and>
         toggleReaction m u e s = (Inl InvalidEmoji, s)"
  using assms by (simp add: toggleReaction_def toggleReaction_handler_def mutation_def)

lemma toggleReaction_same:
  assumes "e \<in> set ALLOWED_EMOJIS" and "find (\<lambda>r. r_emoji (snd r) = e) (reactions_of s m u) = Some d"
  shows "toggleReaction m u e s = (Inr (), s\<lparr>reactions := db_delete (reactions s) (fst d)\<rparr>)"
  using assms
  by (simp add: toggleReaction_def toggleReaction_handler_def mutation_def
        reactions_of_def)

lemma toggleReaction_new:
  assumes "e \<in> set ALLOWED_EMOJIS" and "find (\<lambda>r. r_emoji (snd r) = e) (reactions_of s m u) = None"
  shows "toggleReaction m u e s =
     (Inr (), s\<lparr>reactions :=
        foldl (\<lambda>t r. db_delete t (fst r)) (reactions s) (reactions_of s m u)
          @ [Some \<lparr>r_messageId = m, r_userId = u, r_emoji = e\<rparr>]\<rparr>)"
  using assms
  by (simp add: toggleReaction_def toggleReaction_handler_def mutation_def
        reactions_of_def db_insert_def)

lemma toggleReaction_effect:
  assumes ok: "e \<in> set ALLOWED_EMOJIS"
  shows "\<exists>s'. toggleReaction m u e s = (Inr (), s') \<and>
           reactions_of s' m u =
             (case find (\<lambda>r. r_emoji (snd r) = e) (reactions_of s m u) of
                Some d \<Rightarrow> filter (\<lambda>x. fst x \<noteq> fst d) (reactions_of s m u)
              | None \<Rightarrow> [(length (reactions s), \<lparr>r_messageId = m, r_userId = u, r_emoji = e\<rparr>)]) \<and>
           (\<forall>m' u'. (m', u') \<noteq> (m, u) \<longrightarrow> reactions_of s' m' u' = reactions_of s m' u')"
proof -
  let ?p = "\<lambda>r. r_messageId r = m \<and> r_userId r = u"
  let ?new = "\<lparr>r_messageId = m, r_userId = u, r_emoji = e\<rparr>"
  have other: "\<And>m' u' r. (m', u') \<noteq> (m, u) \<Longrightarrow> ?p r \<Longrightarrow> \<not> (r_messageId r = m' \<and> r_userId r = u')"
    by auto
  show ?thesis
  proof (cases "find (\<lambda>r. r_emoji (snd r) = e) (reactions_of s m u)")
    case (Some d)
    let ?s' = "s\<lparr>reactions := db_delete (reactions s) (fst d)\<rparr>"
    have d: "d \<in> set (reactions_of s m u)" using find_Some_mem [OF Some] by simp
    have 1: "reactions_of ?s' m u = filter (\<lambda>x. fst x \<noteq> fst d) (reactions_of s m u)"
      by (simp add: reactions_of_def query_delete)
    have 4: "reactions_of ?s' m' u' = reactions_of s m' u'" if "(m', u') \<noteq> (m, u)" for m' u'
    proof -
      have "filter (\<lambda>x. fst x \<notin> fst ` set [d])
              (query (reactions s) (\<lambda>r. r_messageId r = m' \<and> r_userId r = u'))
            = query (reactions s) (\<lambda>r. r_messageId r = m' \<and> r_userId r = u')"
        using other [OF that] d by (intro query_filter_other [where p = ?p]) (auto simp: reactions_of_def)
      then show ?thesis by (simp add: reactions_of_def query_delete)
    qed
    show ?thesis
      using toggleReaction_same [OF ok Some] 1 4 Some by (intro exI [of _ ?s']) simp
  next
    case None
    let ?rs = "foldl (\<lambda>t r. db_delete t (fst r)) (reactions s) (reactions_of s m u)"
    let ?s' = "s\<lparr>reactions := ?rs @ [Some ?new]\<rparr>"
    have "filter (\<lambda>d. fst d \<notin> fst ` set (reactions_of s m u)) (reactions_of s m u) = []"
      by (auto simp: filter_empty_conv)
    then have 2: "reactions_of ?s' m u = [(length (reactions s), ?new)]"
      by (simp add: reactions_of_def query_snoc query_foldl_delete length_foldl_delete)
    have 4: "reactions_of ?s' m' u' = reactions_of s m' u'" if "(m', u') \<noteq> (m, u)" for m' u'
    proof -
      have "filter (\<lambda>x. fst x \<notin> fst ` set (reactions_of s m u))
              (query (reactions s) (\<lambda>r. r_messageId r = m' \<and> r_userId r = u'))
            = query (reactions s) (\<lambda>r. r_messageId r = m' \<and> r_userId r = u')"
        using other [OF that] by (intro query_filter_other [where p = ?p]) (auto simp: reactions_of_def)
      then show ?thesis using that by (auto simp: reactions_of_def query_snoc query_foldl_delete)
    qed
    show ?thesis
      using toggleReaction_new [OF ok None] 2 4 None by (intro exI [of _ ?s']) simp
  qed
qed

lemma toggleReaction_at_most_one:
  assumes "\<forall>m' u'. length (reactions_of s m' u') \<le> 1"
  shows "length (reactions_of (snd (toggleReaction m u e s)) m' u') \<le> 1"
proof (cases "e \<in> set ALLOWED_EMOJIS")
  case False
  then show ?thesis using toggleReaction_invalid [of e m u s] assms by simp
next
  case True
  from toggleReaction_effect [OF True, of m u s] obtain s' where
    s': "toggleReaction m u e s = (Inr (), s')"
        "reactions_of s' m u =
             (case find (\<lambda>r. r_emoji (snd r) = e) (reactions_of s m u) of
                Some d \<Rightarrow> filter (\<lambda>x. fst x \<noteq> fst d) (reactions_of s m u)
              | None \<Rightarrow> [(length (reactions s), \<lparr>r_messageId = m, r_userId = u, r_emoji = e\<rparr>)])"
        "\<forall>m' u'. (m', u') \<noteq> (m, u) \<longrightarrow> reactions_of s' m' u' = reactions_of s m' u'"
    by blast
  show ?thesis
  proof (cases "(m', u') = (m, u)")
    case False
    then show ?thesis using s'(1,3) assms by simp
  next
    case True
    have "length (filter P (reactions_of s m u)) \<le> 1" for P
      using assms length_filter_le [of P "reactions_of s m u"] order_trans by blast
    then have "length (reactions_of s' m u) \<le> 1"
      unfolding s'(2) by (simp split: option.splits)
    then show ?thesis using True s'(1) by simp
  qed
qed

lemma reactions_other_ops:
  "reactions (snd (getOrCreateDirectConversation a b t1 t2 s)) = reactions s"
  "reactions (snd (createGroupConversation n ms c t1 t2 s)) = reactions s"
  "reactions (snd (markAsRead u c t s)) = reactions s"
  "reactions (snd (sendMessage c u body t s)) = reactions s"
  "reactions (snd (deleteMessage m u s)) = reactions s"
  "reactions (snd (setTyping c u t s)) = reactions s"
  "reactions (snd (clearTyping c u s)) = reactions s"
  by (auto simp: getOrCreateDirectConversation_def getOrCreateDirectConversation_handler_def
        createGroupConversation_def createGroupConversation_handler_def
        markAsRead_def markAsRead_handler_def sendMessage_def sendMessage_handler_def
        deleteMessage_def deleteMessage_handler_def setTyping_def setTyping_handler_def
        clearTyping_def clearTyping_handler_def mutation_def db_insert_def Let_def
      split: sum.splits option.splits)

lemma step_at_most_one:
  assumes "\<forall>m u. length (reactions_of s m u) \<le> 1"
  shows "\<forall>m u. length (reactions_of (step x s) m u) \<le> 1"
proof (cases x)
  case (ToggleReaction m u e)
  then show ?thesis using toggleReaction_at_most_one [OF assms] by simp
qed (use assms in \<open>simp_all add: reactions_of_def reactions_other_ops\<close>)

lemma run_at_most_one:
  "\<forall>m u. length (reactions_of s m u) \<le> 1 \<Longrightarrow> \<forall>m u. length (reactions_of (run ops s) m u) \<le> 1"
proof (induction ops arbitrary: s)
  case Nil
  then show ?case by (simp add: run_def)
next
  case (Cons x ops)
  have "run (x # ops) s = run ops (step x s)" by (simp add: run_def)
  then show ?case using Cons.IH [OF step_at_most_one [OF Cons.prems]] by simp
qed

text \<open>
  C4.  With an emoji outside the fixed set of five, \<^verbatim>\<open>toggleReaction\<close> fails with
  the invalid-emoji error and the handler has written nothing.  With an emoji of the set
  the call succeeds, and: when the user's reaction on the message is one reaction with
  that emoji, the user has no reaction on the message afterwards; when the user has
  reactions on the message, all with other emoji, the user has exactly one afterwards,
  with the given emoji; when the user has none, exactly one with the given emoji is
  inserted.  The reactions of every other pair of message and user are untouched, and a
  store in which every user has at most one reaction per message stays so (it does under
  every mutation, \<open>run_at_most_one\<close>, so the three cases are all there are).
\<close>

theorem toggleReaction_toggles:
  "(e \<notin> set ALLOWED_EMOJIS \<longrightarrow>
      toggleReaction_handler m u e s = (Inl InvalidEmoji, s) \<and>
      toggleReaction m u e s = (Inl InvalidEmoji, s))
   \<and> (e \<in> set ALLOWED_EMOJIS \<longrightarrow>
      (\<exists>s'. toggleReaction m u e s = (Inr (), s') \<and>
         ((\<exists>d. reactions_of s m u = [d] \<and> r_emoji (snd d) = e) \<longrightarrow> reactions_of s' m u = []) \<and>
         (reactions_of s m u \<noteq> [] \<and> (\<forall>d \<in> set (reactions_of s m u). r_emoji (snd d) \<noteq> e) \<longrightarrow>
            reactions_of s' m u =
              [(length (reactions s), \<lparr>r_messageId = m, r_userId = u, r_emoji = e\<rparr>)]) \<and>
         (reactions_of s m u = [] \<longrightarrow>
            reactions_of s' m u =
              [(length (reactions s), \<lparr>r_messageId = m, r_userId = u, r_emoji = e\<rparr>)]) \<and>
         (\<forall>m' u'. (m', u') \<noteq> (m, u) \<longrightarrow> reactions_of s' m' u' = reactions_of s m' u') \<and>
         ((\<forall>m' u'. length (reactions_of s m' u') \<le> 1) \<longrightarrow>
            (\<forall>m' u'. length (reactions_of s' m' u') \<le> 1))))"
proof (intro conjI impI)
  assume "e \<notin> set ALLOWED_EMOJIS"
  then show "toggleReaction_handler m u e s = (Inl InvalidEmoji, s)"
    and "toggleReaction m u e s = (Inl InvalidEmoji, s)"
    using toggleReaction_invalid by blast+
next
  assume ok: "e \<in> set ALLOWED_EMOJIS"
  let ?new = "\<lparr>r_messageId = m, r_userId = u, r_emoji = e\<rparr>"
  let ?f = "find (\<lambda>r. r_emoji (snd r) = e) (reactions_of s m u)"
  from toggleReaction_effect [OF ok, of m u s] obtain s' where
    s': "toggleReaction m u e s = (Inr (), s')"
        "reactions_of s' m u =
             (case ?f of Some d \<Rightarrow> filter (\<lambda>x. fst x \<noteq> fst d) (reactions_of s m u)
              | None \<Rightarrow> [(length (reactions s), ?new)])"
        "\<forall>m' u'. (m', u') \<noteq> (m, u) \<longrightarrow> reactions_of s' m' u' = reactions_of s m' u'"
    by blast
  have 1: "reactions_of s' m u = []" if "\<exists>d. reactions_of s m u = [d] \<and> r_emoji (snd d) = e"
  proof -
    from that obtain d where d: "reactions_of s m u = [d]" "r_emoji (snd d) = e" by blast
    then have "?f = Some d" by simp
    then show ?thesis using s'(2) d(1) by simp
  qed
  have 2: "reactions_of s' m u = [(length (reactions s), ?new)]"
    if "\<forall>d \<in> set (reactions_of s m u). r_emoji (snd d) \<noteq> e"
  proof -
    have "?f = None" using that by (simp add: find_None_all)
    then show ?thesis using s'(2) by simp
  qed
  have 5: "\<forall>m' u'. length (reactions_of s' m' u') \<le> 1"
    if "\<forall>m' u'. length (reactions_of s m' u') \<le> 1"
    using toggleReaction_at_most_one [OF that, of m u e] s'(1) by simp
  show "\<exists>s'. toggleReaction m u e s = (Inr (), s') \<and>
         ((\<exists>d. reactions_of s m u = [d] \<and> r_emoji (snd d) = e) \<longrightarrow> reactions_of s' m u = []) \<and>
         (reactions_of s m u \<noteq> [] \<and> (\<forall>d \<in> set (reactions_of s m u). r_emoji (snd d) \<noteq> e) \<longrightarrow>
            reactions_of s' m u = [(length (reactions s), ?new)]) \<and>
         (reactions_of s m u = [] \<longrightarrow> reactions_of s' m u = [(length (reactions s), ?new)]) \<and>
         (\<forall>m' u'. (m', u') \<noteq> (m, u) \<longrightarrow> reactions_of s' m' u' = reactions_of s m' u') \<and>
         ((\<forall>m' u'. length (reactions_of s m' u') \<le> 1) \<longrightarrow>
            (\<forall>m' u'. length (reactions_of s' m' u') \<le> 1))"
    using s'(1,3) 1 2 5 by (intro exI [of _ s']) simp
qed

theorem toggleReaction_toggles_witness:
  "toggleReaction 0 1 ''+1'' chat_example = (Inl InvalidEmoji, chat_example) \<and>
   reactions_of (snd (toggleReaction 0 1 [CHR 0xF0, CHR 0x9F, CHR 0x91, CHR 0x8D] chat_example)) 0 1
     = [(0, \<lparr>r_messageId = 0, r_userId = 1, r_emoji = [CHR 0xF0, CHR 0x9F, CHR 0x91, CHR 0x8D]\<rparr>)] \<and>
   reactions_of (run [ToggleReaction 0 1 [CHR 0xF0, CHR 0x9F, CHR 0x91, CHR 0x8D],
                      ToggleReaction 0 1 [CHR 0xF0, CHR 0x9F, CHR 0x91, CHR 0x8D]] chat_example) 0 1
     = [] \<and>
   reactions_of (run [ToggleReaction 0 1 [CHR 0xF0, CHR 0x9F, CHR 0x91, CHR 0x8D],
                      ToggleReaction 0 1 [CHR 0xF0, CHR 0x9F, CHR 0x98, CHR 0x82]] chat_example) 0 1
     = [(1, \<lparr>r_messageId = 0, r_userId = 1, r_emoji = [CHR 0xF0, CHR 0x9F, CHR 0x98, CHR 0x82]\<rparr>)]"
proof -
  let ?up = "[CHR 0xF0, CHR 0x9F, CHR 0x91, CHR 0x8D]"
  have bad: "''+1'' \<notin> set ALLOWED_EMOJIS" by code_simp
  have ok: "?up \<in> set ALLOWED_EMOJIS" by code_simp
  have none: "reactions_of chat_example 0 1 = []" by code_simp
  have len: "length (reactions chat_example) = 0" by code_simp
  have 1: "toggleReaction 0 1 ''+1'' chat_example = (Inl InvalidEmoji, chat_example)"
    using conjunct1 [OF toggleReaction_toggles [of "''+1''" 0 1 chat_example]] bad by simp
  obtain s' where s': "toggleReaction 0 1 ?up chat_example = (Inr (), s')"
      "reactions_of chat_example 0 1 = [] \<longrightarrow>
         reactions_of s' 0 1 =
           [(length (reactions chat_example), \<lparr>r_messageId = 0, r_userId = 1, r_emoji = ?up\<rparr>)]"
    using conjunct2 [OF toggleReaction_toggles [of ?up 0 1 chat_example]] ok by blast
  have 2: "reactions_of (snd (toggleReaction 0 1 ?up chat_example)) 0 1
     = [(0, \<lparr>r_messageId = 0, r_userId = 1, r_emoji = ?up\<rparr>)]"
    using s' none len by simp
  have 3: "reactions_of (run [ToggleReaction 0 1 ?up, ToggleReaction 0 1 ?up] chat_example) 0 1 = []"
    by code_simp
  have 4: "reactions_of (run [ToggleReaction 0 1 ?up,
                      ToggleReaction 0 1 [CHR 0xF0, CHR 0x9F, CHR 0x98, CHR 0x82]] chat_example) 0 1
     = [(1, \<lparr>r_messageId = 0, r_userId = 1, r_emoji = [CHR 0xF0, CHR 0x9F, CHR 0x98, CHR 0x82]\<rparr>)]"
    by code_simp
  from 1 2 3 4 show ?thesis by (intro conjI)
qed

section \<open>Typing indicators: expiry\<close>

lemma unique_Some: "unique xs = Inr (Some x) \<Longrightarrow> xs = [x]"
  by (cases xs; cases "tl xs") (auto simp: unique_def split: list.splits)

lemma unique_None: "unique xs = Inr None \<Longrightarrow> xs = []"
  by (cases xs; cases "tl xs") (auto simp: unique_def split: list.splits)

lemma query_other_id:
  assumes "x \<in> set (query t p')" and "\<And>r. p' r \<Longrightarrow> \<not> p r"
  shows "\<forall>d \<in> set (query t p). fst d \<noteq> fst x"
proof
  fix d assume d: "d \<in> set (query t p)"
  show "fst d \<noteq> fst x"
  proof
    assume "fst d = fst x"
    with d assms(1) have "d = x" by (rule query_same_id)
    then show False using d assms by (simp add: query_mem)
  qed
qed

lemma query_patch_other:
  assumes "\<And>r. p (f r) = p r" and "x \<in> set (query t p')" and "\<And>r. p' r \<Longrightarrow> \<not> p r"
  shows "query (db_patch t (fst x) f) p = query t p"
  using query_other_id [OF assms(2), of p] assms(3)
  by (simp add: query_patch [of p f, OF assms(1)] map_idI)

lemma query_delete_other:
  assumes "x \<in> set (query t p')" and "\<And>r. p' r \<Longrightarrow> \<not> p r"
  shows "query (db_delete t (fst x)) p = query t p"
  using query_other_id [OF assms(1), of p] assms(2)
  by (simp add: query_delete filter_id_conv)

lemma typing_getOrCreateDirect:
  "typingIndicators (snd (getOrCreateDirectConversation a b t1 t2 s)) = typingIndicators s"
  by (simp add: getOrCreateDirectConversation_def getOrCreateDirectConversation_handler_def
        mutation_def db_insert_def split: sum.splits option.splits)

lemma typing_createGroup:
  "typingIndicators (snd (createGroupConversation n ms c t1 t2 s)) = typingIndicators s"
  by (simp add: createGroupConversation_def createGroupConversation_handler_def
        mutation_def db_insert_def)

lemma typing_markAsRead: "typingIndicators (snd (markAsRead u c t s)) = typingIndicators s"
  by (simp add: markAsRead_def markAsRead_handler_def mutation_def
           split: sum.splits option.splits)

lemma typing_deleteMessage: "typingIndicators (snd (deleteMessage m u s)) = typingIndicators s"
  by (simp add: deleteMessage_def deleteMessage_handler_def mutation_def split: option.splits)

lemma typing_toggleReaction: "typingIndicators (snd (toggleReaction m u e s)) = typingIndicators s"
proof (cases "e \<in> set ALLOWED_EMOJIS")
  case False
  then show ?thesis using toggleReaction_invalid [of e m u s] by simp
next
  case True
  show ?thesis
  proof (cases "find (\<lambda>r. r_emoji (snd r) = e) (reactions_of s m u)")
    case None
    then show ?thesis using toggleReaction_new [OF True None] by simp
  next
    case (Some d)
    then show ?thesis using toggleReaction_same [OF True Some] by simp
  qed
qed

lemma typing_setTyping_other:
  assumes "\<not> (c' = C \<and> u' = U)"
  shows "query (typingIndicators (snd (setTyping c' u' t' s)))
           (\<lambda>t. ti_userId t = U \<and> ti_conversationId t = C)
       = query (typingIndicators s) (\<lambda>t. ti_userId t = U \<and> ti_conversationId t = C)"
proof -
  let ?p = "\<lambda>t. ti_userId t = U \<and> ti_conversationId t = C"
  let ?p' = "\<lambda>t. ti_userId t = u' \<and> ti_conversationId t = c'"
  have dis: "\<And>r. ?p' r \<Longrightarrow> \<not> ?p r" using assms by auto
  show ?thesis
  proof (cases "unique (query (typingIndicators s) ?p')")
    case (Inl e)
    then show ?thesis by (simp add: setTyping_def setTyping_handler_def mutation_def)
  next
    case (Inr v)
    show ?thesis
    proof (cases v)
      case None
      then show ?thesis
        using Inr assms
        by (auto simp: setTyping_def setTyping_handler_def mutation_def db_insert_def query_snoc)
    next
      case (Some x)
      then have "unique (query (typingIndicators s) ?p') = Inr (Some x)" using Inr by simp
      then have "query (typingIndicators s) ?p' = [x]" by (rule unique_Some)
      then have "x \<in> set (query (typingIndicators s) ?p')" by simp
      then have "query (db_patch (typingIndicators s) (fst x) (\<lambda>t. t\<lparr>ti_updatedAt := t'\<rparr>)) ?p
               = query (typingIndicators s) ?p"
        using dis by (intro query_patch_other [where p' = ?p']) auto
      then show ?thesis
        using Inr Some by (simp add: setTyping_def setTyping_handler_def mutation_def)
    qed
  qed
qed

lemma typing_clearTyping_other:
  assumes "\<not> (c' = C \<and> u' = U)"
  shows "query (typingIndicators (snd (clearTyping c' u' s)))
           (\<lambda>t. ti_userId t = U \<and> ti_conversationId t = C)
       = query (typingIndicators s) (\<lambda>t. ti_userId t = U \<and> ti_conversationId t = C)"
proof -
  let ?p = "\<lambda>t. ti_userId t = U \<and> ti_conversationId t = C"
  let ?p' = "\<lambda>t. ti_userId t = u' \<and> ti_conversationId t = c'"
  have dis: "\<And>r. ?p' r \<Longrightarrow> \<not> ?p r" using assms by auto
  show ?thesis
  proof (cases "unique (query (typingIndicators s) ?p')")
    case (Inl e)
    then show ?thesis by (simp add: clearTyping_def clearTyping_handler_def mutation_def)
  next
    case (Inr v)
    show ?thesis
    proof (cases v)
      case None
      then show ?thesis
        using Inr by (simp add: clearTyping_def clearTyping_handler_def mutation_def)
    next
      case (Some x)
      then have "unique (query (typingIndicators s) ?p') = Inr (Some x)" using Inr by simp
      then have "query (typingIndicators s) ?p' = [x]" by (rule unique_Some)
      then have "x \<in> set (query (typingIndicators s) ?p')" by simp
      then have "query (db_delete (typingIndicators s) (fst x)) ?p = query (typingIndicators s) ?p"
        using dis by (intro query_delete_other [where p' = ?p']) auto
      then show ?thesis
        using Inr Some by (simp add: clearTyping_def clearTyping_handler_def mutation_def)
    qed
  qed
qed

lemma typing_sendMessage_other:
  assumes "\<not> (c' = C \<and> u' = U)"
  shows "query (typingIndicators (snd (sendMessage c' u' body t' s)))
           (\<lambda>t. ti_userId t = U \<and> ti_conversationId t = C)
       = query (typingIndicators s) (\<lambda>t. ti_userId t = U \<and> ti_conversationId t = C)"
proof -
  let ?p = "\<lambda>t. ti_userId t = U \<and> ti_conversationId t = C"
  let ?p' = "\<lambda>t. ti_userId t = u' \<and> ti_conversationId t = c'"
  have dis: "\<And>r. ?p' r \<Longrightarrow> \<not> ?p r" using assms by auto
  show ?thesis
  proof (cases "unique (query (typingIndicators s) ?p')")
    case (Inl e)
    then show ?thesis
      by (simp add: sendMessage_def sendMessage_handler_def mutation_def db_insert_def)
  next
    case (Inr v)
    show ?thesis
    proof (cases v)
      case None
      then show ?thesis
        using Inr by (simp add: sendMessage_def sendMessage_handler_def mutation_def db_insert_def)
    next
      case (Some x)
      then have "unique (query (typingIndicators s) ?p') = Inr (Some x)" using Inr by simp
      then have "query (typingIndicators s) ?p' = [x]" by (rule unique_Some)
      then have "x \<in> set (query (typingIndicators s) ?p')" by simp
      then have "query (db_delete (typingIndicators s) (fst x)) ?p = query (typingIndicators s) ?p"
        using dis by (intro query_delete_other [where p' = ?p']) auto
      then show ?thesis
        using Inr Some
        by (simp add: sendMessage_def sendMessage_handler_def mutation_def db_insert_def)
    qed
  qed
qed

lemma step_typing_other:
  assumes "\<not> typing_by C U x"
  shows "query (typingIndicators (step x s)) (\<lambda>t. ti_userId t = U \<and> ti_conversationId t = C)
       = query (typingIndicators s) (\<lambda>t. ti_userId t = U \<and> ti_conversationId t = C)"
proof (cases x)
  case (GetOrCreateDirect a b t1 t2)
  then show ?thesis by (simp add: typing_getOrCreateDirect)
next
  case (CreateGroup n ms c t1 t2)
  then show ?thesis by (simp add: typing_createGroup)
next
  case (MarkAsRead u c t)
  then show ?thesis by (simp add: typing_markAsRead)
next
  case (SendMessage c u body t)
  then show ?thesis using assms typing_sendMessage_other [of c C u U] by simp
next
  case (DeleteMessage m u)
  then show ?thesis by (simp add: typing_deleteMessage)
next
  case (ToggleReaction m u e)
  then show ?thesis by (simp add: typing_toggleReaction)
next
  case (SetTyping c u t)
  then show ?thesis using assms typing_setTyping_other [of c C u U] by simp
next
  case (ClearTyping c u)
  then show ?thesis using assms typing_clearTyping_other [of c C u U] by simp
qed

lemma run_typing_other:
  assumes "\<forall>x \<in> set ops. \<not> typing_by C U x"
  shows "query (typingIndicators (run ops s)) (\<lambda>t. ti_userId t = U \<and> ti_conversationId t = C)
       = query (typingIndicators s) (\<lambda>t. ti_userId t = U \<and> ti_conversationId t = C)"
  using assms
proof (induction ops arbitrary: s)
  case Nil
  show ?case by (simp add: run_def)
next
  case (Cons x ops)
  have "run (x # ops) s = run ops (step x s)" by (simp add: run_def)
  then show ?case using Cons step_typing_other [of C U x s] by simp
qed

lemma setTyping_sets:
  assumes "setTyping C U t0 s = (Inr (), s1)"
  shows "\<exists>d. query (typingIndicators s1) (\<lambda>t. ti_userId t = U \<and> ti_conversationId t = C) = [d]
            \<and> ti_updatedAt (snd d) = t0"
proof -
  let ?p = "\<lambda>t. ti_userId t = U \<and> ti_conversationId t = C"
  show ?thesis
  proof (cases "unique (query (typingIndicators s) ?p)")
    case (Inl e)
    then show ?thesis using assms by (simp add: setTyping_def setTyping_handler_def mutation_def)
  next
    case (Inr v)
    show ?thesis
    proof (cases v)
      case None
      then have "unique (query (typingIndicators s) ?p) = Inr None" using Inr by simp
      then have "query (typingIndicators s) ?p = []" by (rule unique_None)
      then show ?thesis
        using Inr None assms
        by (auto simp: setTyping_def setTyping_handler_def mutation_def db_insert_def query_snoc)
    next
      case (Some x)
      then have "unique (query (typingIndicators s) ?p) = Inr (Some x)" using Inr by simp
      then have x: "query (typingIndicators s) ?p = [x]" by (rule unique_Some)
      have "query (db_patch (typingIndicators s) (fst x) (\<lambda>t. t\<lparr>ti_updatedAt := t0\<rparr>)) ?p
              = [(fst x, (snd x)\<lparr>ti_updatedAt := t0\<rparr>)]"
        by (simp add: query_patch x)
      then show ?thesis
        using Inr Some assms by (auto simp: setTyping_def setTyping_handler_def mutation_def)
    qed
  qed
qed

lemma active_user_iff:
  assumes "query (typingIndicators s) (\<lambda>t. ti_userId t = U \<and> ti_conversationId t = C) = [d]"
    and "ti_updatedAt (snd d) = t0"
  shows "U \<in> set (map (\<lambda>i. ti_userId (snd i)) (activeIndicators C V t s))
           \<longleftrightarrow> U \<noteq> V \<and> t - t0 < 2000"
proof -
  let ?q = "query (typingIndicators s) (\<lambda>t. ti_conversationId t = C)"
  have "(x \<in> set ?q \<and> ti_userId (snd x) = U)
           = (x \<in> set (query (typingIndicators s) (\<lambda>t. ti_userId t = U \<and> ti_conversationId t = C)))"
    for x
    by (auto simp: query_mem)
  then have key: "(x \<in> set ?q \<and> ti_userId (snd x) = U) = (x = d)" for x
    using assms(1) by simp
  show ?thesis
  proof
    assume "U \<in> set (map (\<lambda>i. ti_userId (snd i)) (activeIndicators C V t s))"
    then obtain x where x: "x \<in> set (activeIndicators C V t s)" "ti_userId (snd x) = U"
      by auto
    then have f: "x \<in> set ?q" "ti_userId (snd x) \<noteq> V" "t - ti_updatedAt (snd x) < 2000"
      by (simp_all add: activeIndicators_def TYPING_EXPIRY_MS_def)
    have "x = d" using key [of x] f(1) x(2) by simp
    then show "U \<noteq> V \<and> t - t0 < 2000" using f x(2) assms(2) by simp
  next
    assume a: "U \<noteq> V \<and> t - t0 < 2000"
    have "d \<in> set ?q" "ti_userId (snd d) = U" using key [of d] by simp_all
    then have "d \<in> set (activeIndicators C V t s)"
      using a assms(2) by (simp add: activeIndicators_def TYPING_EXPIRY_MS_def)
    then show "U \<in> set (map (\<lambda>i. ti_userId (snd i)) (activeIndicators C V t s))"
      using \<open>ti_userId (snd d) = U\<close> by force
  qed
qed

lemma setTyping_upserts:
  assumes "length (query (typingIndicators s)
             (\<lambda>x. ti_userId x = U \<and> ti_conversationId x = C)) \<le> 1"
  shows "\<exists>s1 i. setTyping C U t0 s = (Inr (), s1) \<and>
           query (typingIndicators s1) (\<lambda>x. ti_userId x = U \<and> ti_conversationId x = C)
             = [(i, \<lparr>ti_conversationId = C, ti_userId = U, ti_updatedAt = t0\<rparr>)]"
proof -
  let ?p = "\<lambda>x. ti_userId x = U \<and> ti_conversationId x = C"
  let ?q = "query (typingIndicators s) ?p"
  from assms consider "?q = []" | x where "?q = [x]"
    by (cases ?q; cases "tl ?q") auto
  then show ?thesis
  proof cases
    case 1
    then show ?thesis
      by (simp add: setTyping_def setTyping_handler_def mutation_def unique_def db_insert_def
            query_snoc)
  next
    case 2
    have "x \<in> set ?q" using 2 by simp
    then have k: "ti_userId (snd x) = U" "ti_conversationId (snd x) = C"
      by (simp_all add: query_mem)
    have "(snd x)\<lparr>ti_updatedAt := t0\<rparr> = \<lparr>ti_conversationId = C, ti_userId = U, ti_updatedAt = t0\<rparr>"
      using k by (cases "snd x") simp
    moreover have "query (db_patch (typingIndicators s) (fst x) (\<lambda>t. t\<lparr>ti_updatedAt := t0\<rparr>)) ?p
              = [(fst x, (snd x)\<lparr>ti_updatedAt := t0\<rparr>)]"
      by (simp add: query_patch 2)
    ultimately show ?thesis
      using 2 by (simp add: setTyping_def setTyping_handler_def mutation_def unique_def)
  qed
qed

text \<open>
  C9 (amended).  Let user \<open>U\<close> have at most one typing indicator in conversation \<open>C\<close>
  (as in every store that the mutations reach, \<open>typing_one_run\<close>).  Then
  \<^verbatim>\<open>setTyping\<close> of \<open>U\<close> in \<open>C\<close> at time \<open>t0\<close> succeeds, whether it inserts the
  indicator or refreshes it, and leaves \<open>U\<close> with one indicator in \<open>C\<close>, of time
  \<open>t0\<close>.  Let any mutations follow except a \<^verbatim>\<open>setTyping\<close>, a \<^verbatim>\<open>clearTyping\<close> or
  a \<^verbatim>\<open>sendMessage\<close> of \<open>U\<close> in \<open>C\<close>.  For another user \<open>V\<close> and a read at time
  \<open>t\<close>, the indicator of \<open>U\<close> is among the active indicators of \<open>C\<close> exactly when
  \<open>t - t0 < 2000\<close>, and it is never among those computed for \<open>U\<close> itself.  The result
  of \<^verbatim>\<open>getTypingUsers\<close> is the list of the display names of the active indicators:
  the name of \<open>U\<close> is in the list for \<open>V\<close> while \<open>t - t0 < 2000\<close>; it is in that list
  later, or in the list for \<open>U\<close>, only if another user who is typing in \<open>C\<close> has the
  same display name.
\<close>

theorem typing_expiry:
  assumes "length (query (typingIndicators s)
             (\<lambda>x. ti_userId x = U \<and> ti_conversationId x = C)) \<le> 1"
    and "\<forall>x \<in> set ops. \<not> typing_by C U x"
    and "U \<noteq> V"
  shows "\<exists>s1 i. setTyping C U t0 s = (Inr (), s1) \<and>
       query (typingIndicators s1) (\<lambda>x. ti_userId x = U \<and> ti_conversationId x = C)
         = [(i, \<lparr>ti_conversationId = C, ti_userId = U, ti_updatedAt = t0\<rparr>)] \<and>
       (U \<in> set (map (\<lambda>i. ti_userId (snd i)) (activeIndicators C V t (run ops s1)))
            \<longleftrightarrow> t - t0 < 2000) \<and>
       U \<notin> set (map (\<lambda>i. ti_userId (snd i)) (activeIndicators C U t (run ops s1))) \<and>
       getTypingUsers C V t (run ops s1) =
           map (\<lambda>i. display_name (run ops s1) (ti_userId (snd i))) (activeIndicators C V t (run ops s1)) \<and>
       (t - t0 < 2000 \<longrightarrow>
            display_name (run ops s1) U \<in> set (getTypingUsers C V t (run ops s1))) \<and>
       (\<not> t - t0 < 2000 \<and> display_name (run ops s1) U \<in> set (getTypingUsers C V t (run ops s1))
            \<longrightarrow> (\<exists>i \<in> set (activeIndicators C V t (run ops s1)). ti_userId (snd i) \<noteq> U \<and>
                   display_name (run ops s1) (ti_userId (snd i)) = display_name (run ops s1) U)) \<and>
       (display_name (run ops s1) U \<in> set (getTypingUsers C U t (run ops s1))
            \<longrightarrow> (\<exists>i \<in> set (activeIndicators C U t (run ops s1)). ti_userId (snd i) \<noteq> U \<and>
                   display_name (run ops s1) (ti_userId (snd i)) = display_name (run ops s1) U))"
proof -
  from setTyping_upserts [OF assms(1), of t0] obtain s1 i where
    s1: "setTyping C U t0 s = (Inr (), s1)"
        "query (typingIndicators s1) (\<lambda>x. ti_userId x = U \<and> ti_conversationId x = C)
           = [(i, \<lparr>ti_conversationId = C, ti_userId = U, ti_updatedAt = t0\<rparr>)]"
    by blast
  let ?d = "(i, \<lparr>ti_conversationId = C, ti_userId = U, ti_updatedAt = t0\<rparr>)"
  let ?s = "run ops s1"
  have d: "ti_updatedAt (snd ?d) = t0" by simp
  have q: "query (typingIndicators ?s) (\<lambda>t. ti_userId t = U \<and> ti_conversationId t = C) = [?d]"
    using run_typing_other [OF assms(2), of s1] s1(2) by simp
  have 1: "U \<in> set (map (\<lambda>i. ti_userId (snd i)) (activeIndicators C V t ?s)) \<longleftrightarrow> t - t0 < 2000"
    using active_user_iff [OF q d, of V t] assms(3) by simp
  have 2: "U \<notin> set (map (\<lambda>i. ti_userId (snd i)) (activeIndicators C U t ?s))"
    using active_user_iff [OF q d, of U t] by simp
  have 3: "getTypingUsers C W t ?s =
           map (\<lambda>i. display_name ?s (ti_userId (snd i))) (activeIndicators C W t ?s)" for W
    by (simp add: getTypingUsers_def)
  have 4: "display_name ?s U \<in> set (getTypingUsers C V t ?s)" if "t - t0 < 2000"
  proof -
    from that 1 obtain i where "i \<in> set (activeIndicators C V t ?s)" "ti_userId (snd i) = U"
      by auto
    then show ?thesis unfolding 3 by force
  qed
  have 5: "\<exists>i \<in> set (activeIndicators C V t ?s). ti_userId (snd i) \<noteq> U \<and>
             display_name ?s (ti_userId (snd i)) = display_name ?s U"
    if "\<not> t - t0 < 2000 \<and> display_name ?s U \<in> set (getTypingUsers C V t ?s)"
  proof -
    from that obtain i where i: "i \<in> set (activeIndicators C V t ?s)"
        "display_name ?s (ti_userId (snd i)) = display_name ?s U"
      unfolding 3 by auto
    have "ti_userId (snd i) \<noteq> U" using that 1 i(1) by force
    then show ?thesis using i by blast
  qed
  have 6: "\<exists>i \<in> set (activeIndicators C U t ?s). ti_userId (snd i) \<noteq> U \<and>
             display_name ?s (ti_userId (snd i)) = display_name ?s U"
    if "display_name ?s U \<in> set (getTypingUsers C U t ?s)"
  proof -
    from that obtain i where i: "i \<in> set (activeIndicators C U t ?s)"
        "display_name ?s (ti_userId (snd i)) = display_name ?s U"
      unfolding 3 by auto
    have "ti_userId (snd i) \<noteq> U" using 2 i(1) by force
    then show ?thesis using i by blast
  qed
  show ?thesis
    using s1 1 2 3 [of V] 4 5 6 by (intro exI [of _ s1] exI [of _ i]) blast
qed

text \<open>
  C9 (as stated, refuted).  The claim is that the name of \<open>U\<close> is in the list for
  another user exactly when \<open>t - t0 < 2000\<close>, and that \<open>U\<close> never appears in the list
  for \<open>U\<close>.  Users 0 and 1 are both called Alex.  User 0 sets typing in conversation 0 at
  time 1000 and user 1 at time 5000.  At time 5500 the indicator of user 0 has expired,
  and yet the name of user 0 is in the list for user 2 and in the list for user 0.
\<close>

theorem typing_name_counterexample:
  "fst (setTyping 0 0 1000 namesakes) = Inr () \<and>
   \<not> typing_by 0 0 (SetTyping 0 1 5000) \<and>
   display_name (run [SetTyping 0 1 5000] (snd (setTyping 0 0 1000 namesakes))) 0 = ''Alex'' \<and>
   \<not> (5500 - 1000 < (2000 :: int)) \<and>
   getTypingUsers 0 2 5500 (run [SetTyping 0 1 5000] (snd (setTyping 0 0 1000 namesakes)))
     = [''Alex''] \<and>
   getTypingUsers 0 0 5500 (run [SetTyping 0 1 5000] (snd (setTyping 0 0 1000 namesakes)))
     = [''Alex'']"
  by code_simp

theorem typing_expiry_witness:
  "fst (setTyping 0 0 1000 (snd (setTyping 0 0 100 chat_example))) = Inr () \<and>
   query (typingIndicators (snd (setTyping 0 0 1000 (snd (setTyping 0 0 100 chat_example)))))
       (\<lambda>x. ti_userId x = 0 \<and> ti_conversationId x = 0)
     = [(0, \<lparr>ti_conversationId = 0, ti_userId = 0, ti_updatedAt = 1000\<rparr>)] \<and>
   getTypingUsers 0 1 2999 (run [SetTyping 0 1 1500, ClearTyping 0 1, SendMessage 0 1 ''hi'' 2500]
       (snd (setTyping 0 0 1000 (snd (setTyping 0 0 100 chat_example))))) = [''Alex''] \<and>
   getTypingUsers 0 1 3000 (run [SetTyping 0 1 1500, ClearTyping 0 1, SendMessage 0 1 ''hi'' 2500]
       (snd (setTyping 0 0 1000 (snd (setTyping 0 0 100 chat_example))))) = [] \<and>
   0 \<in> set (map (\<lambda>i. ti_userId (snd i))
     (activeIndicators 0 1 2999 (run [SetTyping 0 1 1500, ClearTyping 0 1, SendMessage 0 1 ''hi'' 2500]
       (snd (setTyping 0 0 1000 (snd (setTyping 0 0 100 chat_example))))))) \<and>
   0 \<notin> set (map (\<lambda>i. ti_userId (snd i))
     (activeIndicators 0 1 3000 (run [SetTyping 0 1 1500, ClearTyping 0 1, SendMessage 0 1 ''hi'' 2500]
       (snd (setTyping 0 0 1000 (snd (setTyping 0 0 100 chat_example))))))) \<and>
   0 \<notin> set (map (\<lambda>i. ti_userId (snd i))
     (activeIndicators 0 0 2999 (run [SetTyping 0 1 1500, ClearTyping 0 1, SendMessage 0 1 ''hi'' 2500]
       (snd (setTyping 0 0 1000 (snd (setTyping 0 0 100 chat_example))))))) \<and>
   getTypingUsers 0 1 1500 (snd (setTyping 0 0 1000 chat_example)) = [''Alex'']"
proof -
  let ?ops = "[SetTyping 0 1 1500, ClearTyping 0 1, SendMessage 0 1 ''hi'' 2500]"
  let ?s0 = "snd (setTyping 0 0 100 chat_example)"
  let ?s1 = "snd (setTyping 0 0 1000 ?s0)"
  have a: "length (query (typingIndicators ?s0) (\<lambda>x. ti_userId x = 0 \<and> ti_conversationId x = 0)) \<le> 1"
    by code_simp
  have b: "\<forall>x \<in> set ?ops. \<not> typing_by 0 0 x" by simp
  have c: "(0::nat) \<noteq> 1" by simp
  have n1: "getTypingUsers 0 1 2999 (run ?ops ?s1) = [''Alex'']" by code_simp
  have n2: "getTypingUsers 0 1 3000 (run ?ops ?s1) = []" by code_simp
  have n3: "getTypingUsers 0 1 1500 (snd (setTyping 0 0 1000 chat_example)) = [''Alex'']"
    by code_simp
  from typing_expiry [OF a b c, of 1000 2999] obtain s1 i where
    p: "setTyping 0 0 1000 ?s0 = (Inr (), s1)"
       "query (typingIndicators s1) (\<lambda>x. ti_userId x = 0 \<and> ti_conversationId x = 0)
          = [(i, \<lparr>ti_conversationId = 0, ti_userId = 0, ti_updatedAt = 1000\<rparr>)]"
       "(0 \<in> set (map (\<lambda>i. ti_userId (snd i)) (activeIndicators 0 1 2999 (run ?ops s1))))
          = (2999 - 1000 < (2000::int))"
       "0 \<notin> set (map (\<lambda>i. ti_userId (snd i)) (activeIndicators 0 0 2999 (run ?ops s1)))"
    by blast
  from typing_expiry [OF a b c, of 1000 3000] obtain s1' i' where
    p': "setTyping 0 0 1000 ?s0 = (Inr (), s1')"
       "(0 \<in> set (map (\<lambda>i. ti_userId (snd i)) (activeIndicators 0 1 3000 (run ?ops s1'))))
          = (3000 - 1000 < (2000::int))"
    by blast
  have e: "s1 = ?s1" "s1' = ?s1" using p(1) p'(1) by simp_all
  have i0: "i = 0"
  proof -
    have "fst (hd (query (typingIndicators ?s1) (\<lambda>x. ti_userId x = 0 \<and> ti_conversationId x = 0))) = 0"
      by code_simp
    then show ?thesis using p(2) e(1) by simp
  qed
  have 1: "fst (setTyping 0 0 1000 ?s0) = Inr ()" using p(1) by simp
  show ?thesis
    using 1 p(2,3,4) p'(2) n1 n2 n3 unfolding e i0 by simp
qed

section \<open>Direct conversations\<close>

lemma memberships_of_filter:
  "memberships_of s u c = filter (\<lambda>m. cm_userId (snd m) = u) (members_of s c)"
  by (simp add: memberships_of_def members_of_def query_def conj_commute)

lemma memberships_of_mem:
  "m \<in> set (memberships_of s u c) \<longleftrightarrow>
     m \<in> set (docs (conversationMembers s)) \<and> cm_userId (snd m) = u \<and> cm_conversationId (snd m) = c"
  by (auto simp: memberships_of_def query_def)

lemma member_users_iff: "u \<in> set (member_users s c) \<longleftrightarrow> memberships_of s u c \<noteq> []"
proof -
  have "memberships_of s u c \<noteq> [] \<longleftrightarrow> (\<exists>m \<in> set (members_of s c). cm_userId (snd m) = u)"
    by (simp add: memberships_of_filter filter_empty_conv)
  then show ?thesis by (auto simp: member_users_def)
qed

lemma find_direct_Cons:
  "find_direct s b (m # rest) =
     (if \<not> is_direct s (cm_conversationId (snd m)) then find_direct s b rest
      else if memberships_of s b (cm_conversationId (snd m)) = [] then find_direct s b rest
      else if length (memberships_of s b (cm_conversationId (snd m))) = 1
           then Inr (Some (cm_conversationId (snd m)))
      else Inl NotUnique)"
  by (simp add: is_direct_def memberships_of_def unique_cases split: option.splits)

lemma find_direct_Some:
  "find_direct s b ms = Inr (Some c) \<Longrightarrow>
     \<exists>m \<in> set ms. cm_conversationId (snd m) = c \<and> is_direct s c \<and> length (memberships_of s b c) = 1"
proof (induction ms)
  case Nil
  then show ?case by simp
next
  case (Cons m ms)
  show ?case
  proof (cases "find_direct s b (m # ms) = find_direct s b ms")
    case True
    then show ?thesis using Cons by auto
  next
    case False
    then have "is_direct s (cm_conversationId (snd m))"
        "length (memberships_of s b (cm_conversationId (snd m))) = 1"
        "c = cm_conversationId (snd m)"
      using Cons.prems by (auto simp: find_direct_Cons simp del: find_direct.simps split: if_splits)
    then show ?thesis by auto
  qed
qed

lemma find_direct_None:
  "find_direct s b ms = Inr None \<Longrightarrow> m \<in> set ms \<Longrightarrow> is_direct s (cm_conversationId (snd m)) \<Longrightarrow>
     memberships_of s b (cm_conversationId (snd m)) = []"
proof (induction ms)
  case Nil
  then show ?case by simp
next
  case (Cons x ms)
  from Cons.prems(1) have r: "find_direct s b ms = Inr None"
    by (auto simp: find_direct_Cons simp del: find_direct.simps split: if_splits)
  show ?case
  proof (cases "m = x")
    case True
    then show ?thesis
      using Cons.prems by (auto simp: find_direct_Cons simp del: find_direct.simps split: if_splits)
  next
    case False
    then show ?thesis using Cons r by auto
  qed
qed

lemma find_direct_error:
  "find_direct s b ms = Inl e \<Longrightarrow>
     e = NotUnique \<and>
     (\<exists>m \<in> set ms. is_direct s (cm_conversationId (snd m)) \<and>
        2 \<le> length (memberships_of s b (cm_conversationId (snd m))))"
proof (induction ms)
  case Nil
  then show ?case by simp
next
  case (Cons m ms)
  show ?case
  proof (cases "find_direct s b (m # ms) = find_direct s b ms")
    case True
    then show ?thesis using Cons by auto
  next
    case False
    let ?q = "memberships_of s b (cm_conversationId (snd m))"
    from False have f: "is_direct s (cm_conversationId (snd m))" "?q \<noteq> []" "length ?q \<noteq> 1"
        "e = NotUnique"
      using Cons.prems by (auto simp: find_direct_Cons simp del: find_direct.simps split: if_splits)
    have "2 \<le> length ?q" using f(2,3) by (cases ?q; cases "tl ?q") auto
    then show ?thesis using f by auto
  qed
qed

lemma find_direct_self:
  assumes "\<forall>m \<in> set ms. m \<in> set (docs (conversationMembers s)) \<and> cm_userId (snd m) = a"
  shows "find_direct s a ms =
     (case filter (\<lambda>m. is_direct s (cm_conversationId (snd m))) ms of
        [] \<Rightarrow> Inr None
      | d # _ \<Rightarrow> if length (memberships_of s a (cm_conversationId (snd d))) = 1
                 then Inr (Some (cm_conversationId (snd d))) else Inl NotUnique)"
  using assms
proof (induction ms)
  case Nil
  show ?case by simp
next
  case (Cons m ms)
  have "m \<in> set (memberships_of s a (cm_conversationId (snd m)))"
    using Cons.prems by (simp add: memberships_of_mem)
  then have "memberships_of s a (cm_conversationId (snd m)) \<noteq> []" by auto
  then show ?case
    using Cons by (simp add: find_direct_Cons del: find_direct.simps)
qed

text \<open>
  What \<^verbatim>\<open>getOrCreateDirectConversation\<close> does with both arguments equal to the
  user \<open>a\<close>.  When \<open>a\<close> has no membership in an existing direct conversation,
  the call creates one direct conversation and two memberships, both of \<open>a\<close> in it.
  Otherwise only the first such membership of \<open>a\<close>, in order of creation, decides:
  when \<open>a\<close> has exactly one membership in its conversation, the call returns that
  conversation and writes nothing; when \<open>a\<close> has more than one, the call fails with
  the error of \<^verbatim>\<open>.unique()\<close> and writes nothing.
\<close>

lemma getOrCreateDirect_self:
  "(filter (\<lambda>m. is_direct s (cm_conversationId (snd m)))
       (query (conversationMembers s) (\<lambda>m. cm_userId m = a)) = [] \<longrightarrow>
      getOrCreateDirectConversation a a createdAt now s =
        (Inr (length (conversations s)),
         s\<lparr>conversations := conversations s @
              [Some \<lparr>c_isGroup = False, c_name = None, c_createdAt = createdAt\<rparr>],
           conversationMembers := conversationMembers s @
              [Some \<lparr>cm_conversationId = length (conversations s), cm_userId = a, cm_lastReadAt = now\<rparr>,
               Some \<lparr>cm_conversationId = length (conversations s), cm_userId = a, cm_lastReadAt = now\<rparr>]\<rparr>))
   \<and> (\<forall>d rest. filter (\<lambda>m. is_direct s (cm_conversationId (snd m)))
                 (query (conversationMembers s) (\<lambda>m. cm_userId m = a)) = d # rest \<longrightarrow>
        (length (memberships_of s a (cm_conversationId (snd d))) = 1 \<longrightarrow>
           getOrCreateDirectConversation a a createdAt now s = (Inr (cm_conversationId (snd d)), s)) \<and>
        (length (memberships_of s a (cm_conversationId (snd d))) \<noteq> 1 \<longrightarrow>
           getOrCreateDirectConversation_handler a a createdAt now s = (Inl NotUnique, s) \<and>
           getOrCreateDirectConversation a a createdAt now s = (Inl NotUnique, s)))"
proof -
  let ?ms = "query (conversationMembers s) (\<lambda>m. cm_userId m = a)"
  have "\<forall>m \<in> set ?ms. m \<in> set (docs (conversationMembers s)) \<and> cm_userId (snd m) = a"
    by (simp add: query_def)
  note f = find_direct_self [OF this]
  show ?thesis
    by (auto simp: getOrCreateDirectConversation_def getOrCreateDirectConversation_handler_def
          mutation_def db_insert_def f)
qed

text \<open>
  C10.  The claim is that the call with both arguments equal to a user returns an
  existing conversation and inserts nothing whenever the user has a membership in a
  direct conversation, and otherwise creates a direct conversation with two memberships
  of that user.  On the store with two users the self-call of user 0 creates the direct
  conversation 0 with the memberships of users \<open>[0, 0]\<close>.  User 0 now has a membership in
  a direct conversation, and the next self-call does not return conversation 0: it fails
  with the error of \<^verbatim>\<open>.unique()\<close>, which finds the two memberships of user 0.  The
  same two calls for the users 0 and 1 return conversation 0 both times.
\<close>

theorem getOrCreateDirect_self_twice:
  "getOrCreateDirectConversation 0 0 500 600 two_users =
     (Inr 0, two_users\<lparr>conversations := [Some \<lparr>c_isGroup = False, c_name = None, c_createdAt = 500\<rparr>],
        conversationMembers :=
          [Some \<lparr>cm_conversationId = 0, cm_userId = 0, cm_lastReadAt = 600\<rparr>,
           Some \<lparr>cm_conversationId = 0, cm_userId = 0, cm_lastReadAt = 600\<rparr>]\<rparr>) \<and>
   is_direct (snd (getOrCreateDirectConversation 0 0 500 600 two_users)) 0 \<and>
   member_users (snd (getOrCreateDirectConversation 0 0 500 600 two_users)) 0 = [0, 0] \<and>
   getOrCreateDirectConversation 0 0 700 700 (snd (getOrCreateDirectConversation 0 0 500 600 two_users))
     = (Inl NotUnique, snd (getOrCreateDirectConversation 0 0 500 600 two_users)) \<and>
   fst (run_direct two_users [(0, 1, 500, 600), (0, 1, 700, 700)]) = [Inr 0, Inr 0]"
  by code_simp

lemma getOrCreateDirect_self_examples:
  "getOrCreateDirectConversation 0 0 500 600 two_users =
     (Inr 0, two_users\<lparr>conversations := [Some \<lparr>c_isGroup = False, c_name = None, c_createdAt = 500\<rparr>],
        conversationMembers :=
          [Some \<lparr>cm_conversationId = 0, cm_userId = 0, cm_lastReadAt = 600\<rparr>,
           Some \<lparr>cm_conversationId = 0, cm_userId = 0, cm_lastReadAt = 600\<rparr>]\<rparr>) \<and>
   getOrCreateDirectConversation 0 0 700 700 chat_example = (Inr 0, chat_example)"
proof -
  have e: "filter (\<lambda>m. is_direct two_users (cm_conversationId (snd m)))
             (query (conversationMembers two_users) (\<lambda>m. cm_userId m = 0)) = []"
    by code_simp
  have t: "conversations two_users = []" "conversationMembers two_users = []" by code_simp+
  have 1: "getOrCreateDirectConversation 0 0 500 600 two_users =
     (Inr 0, two_users\<lparr>conversations := [Some \<lparr>c_isGroup = False, c_name = None, c_createdAt = 500\<rparr>],
        conversationMembers :=
          [Some \<lparr>cm_conversationId = 0, cm_userId = 0, cm_lastReadAt = 600\<rparr>,
           Some \<lparr>cm_conversationId = 0, cm_userId = 0, cm_lastReadAt = 600\<rparr>]\<rparr>)"
    using conjunct1 [OF getOrCreateDirect_self [of two_users 0 500 600]] e by (simp add: t)
  let ?d = "(0, \<lparr>cm_conversationId = 0, cm_userId = 0, cm_lastReadAt = 500\<rparr>) :: conversationMember doc"
  have c: "filter (\<lambda>m. is_direct chat_example (cm_conversationId (snd m)))
             (query (conversationMembers chat_example) (\<lambda>m. cm_userId m = 0)) = ?d # []"
    by code_simp
  have l: "length (memberships_of chat_example 0 (cm_conversationId (snd ?d))) = 1" by code_simp
  have 2: "getOrCreateDirectConversation 0 0 700 700 chat_example = (Inr 0, chat_example)"
    using conjunct2 [OF getOrCreateDirect_self [of chat_example 0 700 700]] c l by fastforce
  from 1 2 show ?thesis by simp
qed

section \<open>Direct conversations: one per pair\<close>

lemma is_direct_less: "is_direct s c \<Longrightarrow> c < length (conversations s)"
  by (auto simp: is_direct_def db_get_def split: option.splits if_splits)

lemma set_direct_ids: "set (direct_ids s) = {c. is_direct s c}"
  using is_direct_less by (auto simp: direct_ids_def)

lemma direct_inv_alt:
  "direct_inv s \<longleftrightarrow>
     (\<forall>m \<in> set (docs (conversationMembers s)). cm_conversationId (snd m) < length (conversations s)) \<and>
     (\<forall>c. is_direct s c \<longrightarrow> length (members_of s c) = 2) \<and>
     (\<forall>c c' u v. is_direct s c \<and> is_direct s c' \<and> c \<noteq> c' \<and> u \<noteq> v \<and>
         u \<in> set (member_users s c) \<and> v \<in> set (member_users s c) \<longrightarrow>
         \<not> (u \<in> set (member_users s c') \<and> v \<in> set (member_users s c')))"
  unfolding direct_inv_def set_direct_ids by blast

lemma docs_from_map_Some: "docs_from n (map Some rows) = zip [n..<n + length rows] rows"
proof (induction rows arbitrary: n)
  case Nil
  show ?case by simp
next
  case (Cons r rows)
  have "[n..<n + length (r # rows)] = n # [Suc n..<Suc n + length rows]"
    by (simp add: upt_rec)
  then show ?case using Cons [of "Suc n"] by simp
qed

lemma docs_append_rows:
  "docs (t @ map Some rows) = docs t @ zip [length t..<length t + length rows] rows"
  by (simp add: docs_def docs_from_append docs_from_map_Some)

lemma query_append_rows:
  "query (t @ map Some rows) p =
     query t p @ filter (\<lambda>d. p (snd d)) (zip [length t..<length t + length rows] rows)"
  by (simp add: query_def docs_append_rows)

lemma map_snd_zip_f: "length is = length rows \<Longrightarrow> map (\<lambda>m. f (snd m)) (zip is rows) = map f rows"
  by (induction "is" rows rule: list_induct2) simp_all

lemma is_direct_append:
  "is_direct (s\<lparr>conversations := conversations s @ [Some cv], conversationMembers := ms\<rparr>) c
     \<longleftrightarrow> (if c = length (conversations s) then \<not> c_isGroup cv else is_direct s c)"
  by (auto simp: is_direct_def db_get_def nth_append split: option.splits)

lemma members_of_append:
  assumes "\<forall>r \<in> set rows. cm_conversationId r = n"
  shows "members_of (s\<lparr>conversations := cs, conversationMembers := conversationMembers s @ map Some rows\<rparr>) c
     = members_of s c @ (if c = n then zip [length (conversationMembers s)..<
                                           length (conversationMembers s) + length rows] rows else [])"
proof (cases "c = n")
  case True
  have "filter (\<lambda>d. cm_conversationId (snd d) = n) (zip is rows) = zip is rows" for "is" :: "nat list"
    using assms by (auto simp: filter_id_conv dest: set_zip_rightD)
  then show ?thesis
    using True by (simp add: members_of_def query_append_rows)
next
  case False
  have "filter (\<lambda>d. cm_conversationId (snd d) = c) (zip is rows) = []" for "is" :: "nat list"
    using assms False by (auto simp: filter_empty_conv dest: set_zip_rightD)
  then show ?thesis
    using False by (simp add: members_of_def query_append_rows)
qed

lemma members_of_fresh:
  assumes "\<forall>m \<in> set (docs (conversationMembers s)). cm_conversationId (snd m) < length (conversations s)"
  shows "members_of s (length (conversations s)) = []"
  using assms by (auto simp: members_of_def query_def filter_empty_conv)

lemma append_conversation_inv:
  assumes inv: "direct_inv s"
    and rows: "\<forall>r \<in> set rows. cm_conversationId r = length (conversations s)"
    and dir: "\<not> c_isGroup cv \<Longrightarrow> length rows = 2 \<and>
                (\<forall>u \<in> set (map cm_userId rows). \<forall>v \<in> set (map cm_userId rows). u \<noteq> v \<longrightarrow>
                   (\<forall>c. \<not> has_direct s u v c))"
  shows "direct_inv (s\<lparr>conversations := conversations s @ [Some cv],
                       conversationMembers := conversationMembers s @ map Some rows\<rparr>)"
proof -
  let ?n = "length (conversations s)"
  let ?k = "length (conversationMembers s)"
  let ?s' = "s\<lparr>conversations := conversations s @ [Some cv],
                conversationMembers := conversationMembers s @ map Some rows\<rparr>"
  note i = inv [unfolded direct_inv_alt]
  note i1 = conjunct1 [OF i] and i2 = conjunct1 [OF conjunct2 [OF i]]
    and i3 = conjunct2 [OF conjunct2 [OF i]]
  have dr: "is_direct ?s' c \<longleftrightarrow> (if c = ?n then \<not> c_isGroup cv else is_direct s c)" for c
    by (rule is_direct_append)
  have old: "is_direct s c \<Longrightarrow> c \<noteq> ?n" for c using is_direct_less [of s c] by auto
  have mo: "members_of ?s' c = members_of s c" if "c \<noteq> ?n" for c
    using members_of_append [OF rows, of s _ c] that by simp
  have mn: "members_of ?s' ?n = zip [?k..<?k + length rows] rows"
    using members_of_append [OF rows, of s _ ?n] members_of_fresh [OF i1] by simp
  have uo: "member_users ?s' c = member_users s c" if "c \<noteq> ?n" for c
    using mo [OF that] by (simp add: member_users_def)
  have un: "member_users ?s' ?n = map cm_userId rows"
    by (simp add: member_users_def mn map_snd_zip_f)
  have 1: "\<forall>m \<in> set (docs (conversationMembers ?s')). cm_conversationId (snd m) < length (conversations ?s')"
    using i1 rows by (auto simp: docs_append_rows dest: set_zip_rightD)
  have 2: "\<forall>c. is_direct ?s' c \<longrightarrow> length (members_of ?s' c) = 2"
  proof (intro allI impI)
    fix c assume c: "is_direct ?s' c"
    show "length (members_of ?s' c) = 2"
    proof (cases "c = ?n")
      case True
      then have "\<not> c_isGroup cv" using c dr by simp
      then show ?thesis using dir True mn by simp
    next
      case False
      then show ?thesis using c dr i2 mo by simp
    qed
  qed
  have 3: "\<forall>c c' u v. is_direct ?s' c \<and> is_direct ?s' c' \<and> c \<noteq> c' \<and> u \<noteq> v \<and>
         u \<in> set (member_users ?s' c) \<and> v \<in> set (member_users ?s' c) \<longrightarrow>
         \<not> (u \<in> set (member_users ?s' c') \<and> v \<in> set (member_users ?s' c'))"
  proof (intro allI impI, elim conjE)
    fix c c' u v
    assume h: "is_direct ?s' c" "is_direct ?s' c'" "c \<noteq> c'" "u \<noteq> v"
      "u \<in> set (member_users ?s' c)" "v \<in> set (member_users ?s' c)"
    show "\<not> (u \<in> set (member_users ?s' c') \<and> v \<in> set (member_users ?s' c'))"
  proof (cases "c = ?n")
    case True
    then have g: "\<not> c_isGroup cv" and c': "c' \<noteq> ?n" "is_direct s c'" using h dr by auto
    have "u \<in> set (map cm_userId rows)" "v \<in> set (map cm_userId rows)"
      using h(5,6) True un by simp_all
    then have "\<not> has_direct s u v c'" using dir [OF g] h(4) by blast
    then show ?thesis using c' uo by (simp add: has_direct_def)
  next
    case False
    then have c: "is_direct s c" "u \<in> set (member_users s c)" "v \<in> set (member_users s c)"
      using h dr uo by simp_all
    show ?thesis
    proof (cases "c' = ?n")
      case True
      then have g: "\<not> c_isGroup cv" using h(2) dr by simp
      show ?thesis
      proof
        assume "u \<in> set (member_users ?s' c') \<and> v \<in> set (member_users ?s' c')"
        then have "u \<in> set (map cm_userId rows)" "v \<in> set (map cm_userId rows)"
          using True un by simp_all
        then have "\<not> has_direct s u v c" using dir [OF g] h(4) by blast
        then show False using c by (simp add: has_direct_def)
      qed
    next
      case False
      then have "is_direct s c'" using h(2) dr by simp
      then have "\<not> (u \<in> set (member_users s c') \<and> v \<in> set (member_users s c'))"
        using i3 [rule_format, of c c' u v] c h(3,4) by simp
      then show ?thesis using uo [OF False] by simp
    qed
  qed
  qed
  show ?thesis unfolding direct_inv_alt by (intro conjI 1 2 3)
qed

lemma inv_other_le1:
  assumes "direct_inv s" and "is_direct s c" and "a \<in> set (member_users s c)" and "a \<noteq> b"
  shows "length (memberships_of s b c) \<le> 1"
proof -
  have l: "length (members_of s c) = 2"
    using conjunct1 [OF conjunct2 [OF assms(1) [unfolded direct_inv_alt]]] assms(2) by simp
  from assms(3) obtain m where m: "m \<in> set (members_of s c)" "cm_userId (snd m) = a"
    by (auto simp: member_users_def)
  have "\<not> cm_userId (snd m) = b" using m(2) assms(4) by simp
  with m(1) have "length (filter (\<lambda>m. cm_userId (snd m) = b) (members_of s c)) < length (members_of s c)"
    by (rule length_filter_less)
  then show ?thesis using l by (simp add: memberships_of_filter)
qed

lemma has_direct_unique:
  assumes "direct_inv s" and "a \<noteq> b" and "has_direct s a b c" and "has_direct s a b c'"
  shows "c = c'"
proof (rule ccontr)
  assume ne: "c \<noteq> c'"
  have d: "is_direct s c" "a \<in> set (member_users s c)" "b \<in> set (member_users s c)"
    using assms(3) by (simp_all add: has_direct_def)
  have d': "is_direct s c'" "a \<in> set (member_users s c')" "b \<in> set (member_users s c')"
    using assms(4) by (simp_all add: has_direct_def)
  note i3 = conjunct2 [OF conjunct2 [OF assms(1) [unfolded direct_inv_alt]]]
  have p: "is_direct s c \<and> is_direct s c' \<and> c \<noteq> c' \<and> a \<noteq> b \<and>
         a \<in> set (member_users s c) \<and> b \<in> set (member_users s c)"
    by (intro conjI d d' ne assms(2))
  have "\<not> (a \<in> set (member_users s c') \<and> b \<in> set (member_users s c'))"
    using i3 [THEN spec, THEN spec, THEN spec, THEN spec, THEN mp, OF p] .
  then show False using d'(2,3) by blast
qed

lemma has_direct_sym: "has_direct s a b c \<longleftrightarrow> has_direct s b a c"
  by (auto simp: has_direct_def)

lemma own_membership:
  assumes "a \<in> set (member_users s c)"
  shows "\<exists>m \<in> set (query (conversationMembers s) (\<lambda>m. cm_userId m = a)). cm_conversationId (snd m) = c"
proof -
  from assms obtain m where "m \<in> set (members_of s c)" "cm_userId (snd m) = a"
    by (auto simp: member_users_def)
  then have "m \<in> set (query (conversationMembers s) (\<lambda>m. cm_userId m = a))"
      "cm_conversationId (snd m) = c"
    by (simp_all add: members_of_def query_def)
  then show ?thesis by blast
qed

lemma find_direct_inv:
  assumes "direct_inv s" and "a \<noteq> b"
  shows "(\<exists>c. has_direct s a b c \<and>
            find_direct s b (query (conversationMembers s) (\<lambda>m. cm_userId m = a)) = Inr (Some c))
       \<or> ((\<forall>c. \<not> has_direct s a b c) \<and>
            find_direct s b (query (conversationMembers s) (\<lambda>m. cm_userId m = a)) = Inr None)"
proof -
  let ?ms = "query (conversationMembers s) (\<lambda>m. cm_userId m = a)"
  have own: "a \<in> set (member_users s (cm_conversationId (snd m)))" if "m \<in> set ?ms" for m
    using that by (auto simp: member_users_def members_of_def query_def)
  show ?thesis
  proof (cases "find_direct s b ?ms")
    case (Inl e)
    then obtain m where m: "m \<in> set ?ms" "is_direct s (cm_conversationId (snd m))"
        "2 \<le> length (memberships_of s b (cm_conversationId (snd m)))"
      using find_direct_error by blast
    have "length (memberships_of s b (cm_conversationId (snd m))) \<le> 1"
      using assms(1) m(2) own [OF m(1)] assms(2) by (rule inv_other_le1)
    then show ?thesis using m(3) by simp
  next
    case (Inr v)
    show ?thesis
    proof (cases v)
      case None
      have "\<not> has_direct s a b c" for c
      proof
        assume h: "has_direct s a b c"
        then obtain m where m: "m \<in> set ?ms" "cm_conversationId (snd m) = c"
          using own_membership [of a s c] by (auto simp: has_direct_def)
        have "memberships_of s b (cm_conversationId (snd m)) = []"
          using Inr None m h find_direct_None [of s b ?ms m] by (simp add: has_direct_def)
        then show False using h m(2) by (simp add: has_direct_def member_users_iff)
      qed
      then show ?thesis using Inr None by simp
    next
      case (Some c)
      then obtain m where m: "m \<in> set ?ms" "cm_conversationId (snd m) = c" "is_direct s c"
          "length (memberships_of s b c) = 1"
        using Inr find_direct_Some [of s b ?ms c] by auto
      have "memberships_of s b c \<noteq> []" using m(4) by auto
      then have "has_direct s a b c"
        using m own [OF m(1)] by (simp add: has_direct_def member_users_iff)
      then show ?thesis using Inr Some by auto
    qed
  qed
qed

lemma getOrCreateDirect_found:
  assumes "direct_inv s" and "a \<noteq> b" and "has_direct s a b c"
  shows "getOrCreateDirectConversation a b t1 t2 s = (Inr c, s)"
proof -
  from find_direct_inv [OF assms(1,2)] assms(3) obtain c' where
    c': "has_direct s a b c'"
        "find_direct s b (query (conversationMembers s) (\<lambda>m. cm_userId m = a)) = Inr (Some c')"
    by blast
  have "c' = c" using assms(1,2) c'(1) assms(3) by (rule has_direct_unique)
  then show ?thesis
    using c'(2)
    by (simp add: getOrCreateDirectConversation_def getOrCreateDirectConversation_handler_def
          mutation_def)
qed

lemma getOrCreateDirect_created:
  assumes "direct_inv s" and "a \<noteq> b" and "\<forall>c. \<not> has_direct s a b c"
  shows "\<exists>s'. getOrCreateDirectConversation a b t1 t2 s = (Inr (length (conversations s)), s') \<and>
              direct_inv s' \<and> has_direct s' a b (length (conversations s))"
proof -
  let ?n = "length (conversations s)"
  let ?cv = "\<lparr>c_isGroup = False, c_name = None, c_createdAt = t1\<rparr>"
  let ?rows = "[\<lparr>cm_conversationId = ?n, cm_userId = a, cm_lastReadAt = t2\<rparr>,
                \<lparr>cm_conversationId = ?n, cm_userId = b, cm_lastReadAt = t2\<rparr>]"
  let ?s' = "s\<lparr>conversations := conversations s @ [Some ?cv],
               conversationMembers := conversationMembers s @ map Some ?rows\<rparr>"
  from find_direct_inv [OF assms(1,2)] assms(3) have
    "find_direct s b (query (conversationMembers s) (\<lambda>m. cm_userId m = a)) = Inr None"
    by blast
  then have r: "getOrCreateDirectConversation a b t1 t2 s = (Inr ?n, ?s')"
    by (simp add: getOrCreateDirectConversation_def getOrCreateDirectConversation_handler_def
          mutation_def db_insert_def)
  have rows: "\<forall>r \<in> set ?rows. cm_conversationId r = ?n" by simp
  have "\<not> has_direct s b a c" for c using assms(3) has_direct_sym by blast
  then have dir: "\<not> c_isGroup ?cv \<Longrightarrow> length ?rows = 2 \<and>
                (\<forall>u \<in> set (map cm_userId ?rows). \<forall>v \<in> set (map cm_userId ?rows). u \<noteq> v \<longrightarrow>
                   (\<forall>c. \<not> has_direct s u v c))"
    using assms(3) by auto
  have inv': "direct_inv ?s'" using assms(1) rows dir by (rule append_conversation_inv)
  note i1 = conjunct1 [OF assms(1) [unfolded direct_inv_alt]]
  have "members_of ?s' ?n = zip [length (conversationMembers s)..<
                                  length (conversationMembers s) + length ?rows] ?rows"
    using members_of_append [OF rows, of s _ ?n] members_of_fresh [OF i1] by simp
  then have "member_users ?s' ?n = [a, b]"
    by (simp add: member_users_def upt_rec)
  moreover have "is_direct ?s' ?n"
    using is_direct_append [where s = s and cv = ?cv and c = ?n] by simp
  ultimately have "has_direct ?s' a b ?n" by (simp add: has_direct_def)
  then show ?thesis using r inv' by blast
qed

lemma run_direct_found:
  assumes "direct_inv s" and "a \<noteq> b" and "has_direct s a b c"
    and "\<forall>call \<in> set calls. (fst call, fst (snd call)) \<in> {(a, b), (b, a)}"
  shows "run_direct s calls = (replicate (length calls) (Inr c), s)"
  using assms(4)
proof (induction calls)
  case Nil
  show ?case by simp
next
  case (Cons call calls)
  obtain x y t1 t2 where call: "call = (x, y, t1, t2)" by (cases call) auto
  have "(x = a \<and> y = b) \<or> (x = b \<and> y = a)" using Cons.prems call by simp
  then have "getOrCreateDirectConversation x y t1 t2 s = (Inr c, s)"
  proof
    assume "x = a \<and> y = b"
    then show ?thesis using getOrCreateDirect_found [OF assms(1,2,3)] by simp
  next
    assume xy: "x = b \<and> y = a"
    have "b \<noteq> a" using assms(2) by simp
    moreover have "has_direct s b a c" using assms(3) has_direct_sym by blast
    ultimately show ?thesis using getOrCreateDirect_found [OF assms(1)] xy by simp
  qed
  moreover have "run_direct s calls = (replicate (length calls) (Inr c), s)"
    using Cons by simp
  ultimately show ?case by (simp add: call)
qed

lemma pair_members:
  assumes "length xs = 2" and "a \<in> set xs" and "b \<in> set xs" and "a \<noteq> b"
  shows "mset xs = {#a, b#} \<and> set xs = {a, b}"
proof -
  from assms(1) obtain x y where xs: "xs = [x, y]"
    by (cases xs; cases "tl xs") auto
  then have "(x = a \<and> y = b) \<or> (x = b \<and> y = a)" using assms(2,3,4) by auto
  then show ?thesis using xs by auto
qed

lemma has_direct_pair:
  assumes "direct_inv s" and "a \<noteq> b" and "has_direct s a b c"
  shows "mset (member_users s c) = {#a, b#} \<and> set (member_users s c) = {a, b}"
proof -
  have "length (members_of s c) = 2"
    using conjunct1 [OF conjunct2 [OF assms(1) [unfolded direct_inv_alt]]] assms(3)
    by (simp add: has_direct_def)
  then have "length (member_users s c) = 2" by (simp add: member_users_def)
  then show ?thesis using assms(2,3) by (intro pair_members) (simp_all add: has_direct_def)
qed

text \<open>
  C1.  Let the store satisfy \<open>direct_inv\<close>, which holds of the empty store and is
  kept by every mutation (\<open>direct_inv_empty\<close>, \<open>direct_inv_run\<close>), and let \<open>a\<close> and
  \<open>b\<close> be two different users.  Any non-empty list of calls of
  \<^verbatim>\<open>getOrCreateDirectConversation\<close>, each with the arguments \<open>(a, b)\<close> or \<open>(b, a)\<close>
  and any clock readings, run one after the other, succeeds throughout and returns the
  same conversation id on every call.  In the store after the calls that conversation is
  the one and only direct conversation whose set of members is \<open>{a, b}\<close>, and it has
  exactly two memberships, one of \<open>a\<close> and one of \<open>b\<close>.
\<close>

theorem getOrCreateDirect_dedup:
  assumes "direct_inv s" and "a \<noteq> b" and "calls \<noteq> []"
    and "\<forall>call \<in> set calls. (fst call, fst (snd call)) \<in> {(a, b), (b, a)}"
  shows "\<exists>c s'. run_direct s calls = (replicate (length calls) (Inr c), s') \<and>
           direct_inv s' \<and>
           (\<forall>c'. is_direct s' c' \<and> set (member_users s' c') = {a, b} \<longleftrightarrow> c' = c) \<and>
           mset (member_users s' c) = {#a, b#}"
proof -
  have fin: "\<exists>c s'. run_direct s calls = (replicate (length calls) (Inr c), s') \<and>
               direct_inv s' \<and> has_direct s' a b c"
  proof (cases "\<exists>c. has_direct s a b c")
    case True
    then obtain c where c: "has_direct s a b c" by blast
    then show ?thesis using run_direct_found [OF assms(1,2) c assms(4)] assms(1) by blast
  next
    case False
    obtain call rest where calls: "calls = call # rest" using assms(3) by (cases calls) auto
    obtain x y t1 t2 where call: "call = (x, y, t1, t2)" by (cases call) auto
    let ?n = "length (conversations s)"
    have xy: "(x = a \<and> y = b) \<or> (x = b \<and> y = a)" using assms(4) calls call by simp
    have "\<exists>s'. getOrCreateDirectConversation x y t1 t2 s = (Inr ?n, s') \<and>
               direct_inv s' \<and> has_direct s' a b ?n"
      using xy
    proof
      assume "x = a \<and> y = b"
      then show ?thesis using getOrCreateDirect_created [OF assms(1,2)] False by simp
    next
      assume h: "x = b \<and> y = a"
      have "b \<noteq> a" using assms(2) by simp
      moreover have "\<forall>c. \<not> has_direct s b a c" using False has_direct_sym by blast
      ultimately have "\<exists>s'. getOrCreateDirectConversation b a t1 t2 s = (Inr ?n, s') \<and>
               direct_inv s' \<and> has_direct s' b a ?n"
        using getOrCreateDirect_created [OF assms(1)] by blast
      then show ?thesis using h has_direct_sym by blast
    qed
    then obtain s' where s': "getOrCreateDirectConversation x y t1 t2 s = (Inr ?n, s')"
        "direct_inv s'" "has_direct s' a b ?n"
      by blast
    have "\<forall>call \<in> set rest. (fst call, fst (snd call)) \<in> {(a, b), (b, a)}"
      using assms(4) calls by simp
    then have "run_direct s' rest = (replicate (length rest) (Inr ?n), s')"
      using run_direct_found [OF s'(2) assms(2) s'(3)] by blast
    then have "run_direct s calls = (replicate (length calls) (Inr ?n), s')"
      using s'(1) by (simp add: calls call)
    then show ?thesis using s'(2,3) by blast
  qed
  then obtain c s' where r: "run_direct s calls = (replicate (length calls) (Inr c), s')"
      "direct_inv s'" "has_direct s' a b c"
    by blast
  have p: "mset (member_users s' c) = {#a, b#}" "set (member_users s' c) = {a, b}"
    using has_direct_pair [OF r(2) assms(2) r(3)] by simp_all
  have "c' = c" if "is_direct s' c' \<and> set (member_users s' c') = {a, b}" for c'
  proof -
    have "has_direct s' a b c'" using that by (simp add: has_direct_def)
    then show ?thesis using has_direct_unique [OF r(2) assms(2) _ r(3)] by blast
  qed
  moreover have "is_direct s' c" using r(3) by (simp add: has_direct_def)
  ultimately have "\<forall>c'. is_direct s' c' \<and> set (member_users s' c') = {a, b} \<longleftrightarrow> c' = c"
    using p(2) by blast
  then show ?thesis using r(1,2) p(1) by blast
qed

lemma direct_inv_cong:
  assumes "conversations s' = conversations s" and "conversationMembers s' = conversationMembers s"
  shows "direct_inv s' = direct_inv s"
  using assms
  by (simp add: direct_inv_def direct_ids_def is_direct_def members_of_def member_users_def)

lemma direct_inv_empty: "direct_inv empty_db" "direct_inv two_users"
  by (simp_all add: direct_inv_def direct_ids_def docs_def empty_db_def two_users_def)

lemma direct_inv_getOrCreateDirect:
  assumes "direct_inv s"
  shows "direct_inv (snd (getOrCreateDirectConversation a b t1 t2 s))"
proof (cases "find_direct s b (query (conversationMembers s) (\<lambda>m. cm_userId m = a))")
  case (Inl e)
  then show ?thesis
    using assms
    by (simp add: getOrCreateDirectConversation_def getOrCreateDirectConversation_handler_def
          mutation_def)
next
  case (Inr v)
  show ?thesis
  proof (cases v)
    case (Some c)
    then show ?thesis
      using assms Inr
      by (simp add: getOrCreateDirectConversation_def getOrCreateDirectConversation_handler_def
            mutation_def)
  next
    case None
    let ?n = "length (conversations s)"
    let ?cv = "\<lparr>c_isGroup = False, c_name = None, c_createdAt = t1\<rparr>"
    let ?rows = "[\<lparr>cm_conversationId = ?n, cm_userId = a, cm_lastReadAt = t2\<rparr>,
                  \<lparr>cm_conversationId = ?n, cm_userId = b, cm_lastReadAt = t2\<rparr>]"
    let ?s' = "s\<lparr>conversations := conversations s @ [Some ?cv],
                 conversationMembers := conversationMembers s @ map Some ?rows\<rparr>"
    have r: "snd (getOrCreateDirectConversation a b t1 t2 s) = ?s'"
      using Inr None
      by (simp add: getOrCreateDirectConversation_def getOrCreateDirectConversation_handler_def
            mutation_def db_insert_def)
    have no: "\<forall>c. \<not> has_direct s a b c" if "a \<noteq> b"
      using find_direct_inv [OF assms that] Inr None by auto
    then have no': "\<forall>c. \<not> has_direct s b a c" if "a \<noteq> b"
      using that has_direct_sym by blast
    have rows: "\<forall>r \<in> set ?rows. cm_conversationId r = ?n" by simp
    have dir: "\<not> c_isGroup ?cv \<Longrightarrow> length ?rows = 2 \<and>
                (\<forall>u \<in> set (map cm_userId ?rows). \<forall>v \<in> set (map cm_userId ?rows). u \<noteq> v \<longrightarrow>
                   (\<forall>c. \<not> has_direct s u v c))"
      using no no' by auto
    have "direct_inv ?s'" using assms rows dir by (rule append_conversation_inv)
    then show ?thesis using r by simp
  qed
qed

lemma foldl_insert_rows:
  "foldl (\<lambda>ms x. ms @ [Some (f x)]) t xs = t @ map Some (map f xs)"
  by (induction xs arbitrary: t) simp_all

lemma ball_map_inv:
  "(\<And>x. P (g x) = P x) \<Longrightarrow> (\<forall>m \<in> set (map g xs). P m) = (\<forall>m \<in> set xs. P m)"
  by (induction xs) simp_all

lemma direct_inv_createGroup:
  assumes "direct_inv s"
  shows "direct_inv (snd (createGroupConversation name memberIds creatorId t1 t2 s))"
proof -
  let ?n = "length (conversations s)"
  let ?cv = "\<lparr>c_isGroup = True, c_name = Some name, c_createdAt = t1\<rparr>"
  let ?f = "\<lambda>u. \<lparr>cm_conversationId = ?n, cm_userId = u, cm_lastReadAt = t2\<rparr>"
  let ?rows = "map ?f (creatorId # memberIds)"
  let ?s' = "s\<lparr>conversations := conversations s @ [Some ?cv],
               conversationMembers := conversationMembers s @ map Some ?rows\<rparr>"
  have r: "snd (createGroupConversation name memberIds creatorId t1 t2 s) = ?s'"
    by (simp add: createGroupConversation_def createGroupConversation_handler_def
          mutation_def db_insert_def foldl_insert_rows)
  have rows: "\<forall>r \<in> set ?rows. cm_conversationId r = ?n" by auto
  have dir: "\<not> c_isGroup ?cv \<Longrightarrow> length ?rows = 2 \<and>
                (\<forall>u \<in> set (map cm_userId ?rows). \<forall>v \<in> set (map cm_userId ?rows). u \<noteq> v \<longrightarrow>
                   (\<forall>c. \<not> has_direct s u v c))"
    by simp
  have "direct_inv ?s'" using assms rows dir by (rule append_conversation_inv)
  then show ?thesis using r by simp
qed

lemma direct_inv_patch:
  assumes "direct_inv s"
  shows "direct_inv (s\<lparr>conversationMembers :=
           db_patch (conversationMembers s) i (\<lambda>m. m\<lparr>cm_lastReadAt := t\<rparr>)\<rparr>)"
proof -
  let ?s' = "s\<lparr>conversationMembers :=
           db_patch (conversationMembers s) i (\<lambda>m. m\<lparr>cm_lastReadAt := t\<rparr>)\<rparr>"
  let ?g = "\<lambda>d::conversationMember doc. if fst d = i then (i, (snd d)\<lparr>cm_lastReadAt := t\<rparr>) else d"
  have d: "docs (conversationMembers ?s') = map ?g (docs (conversationMembers s))"
    by (simp add: docs_patch)
  have m: "members_of ?s' c = map ?g (members_of s c)" for c
    by (simp add: members_of_def query_patch)
  have u: "member_users ?s' c = member_users s c" for c
    by (simp add: member_users_def m o_def if_distrib cong: if_cong)
  have l: "length (members_of ?s' c) = length (members_of s c)" for c by (simp add: m)
  have i: "is_direct ?s' c = is_direct s c" for c by (simp add: is_direct_def)
  have 1: "(\<forall>m \<in> set (docs (conversationMembers ?s')). cm_conversationId (snd m) < length (conversations ?s'))
         = (\<forall>m \<in> set (docs (conversationMembers s)). cm_conversationId (snd m) < length (conversations s))"
  proof -
    have "(\<forall>m \<in> set (map ?g (docs (conversationMembers s))).
             cm_conversationId (snd m) < length (conversations s))
        = (\<forall>m \<in> set (docs (conversationMembers s)).
             cm_conversationId (snd m) < length (conversations s))"
      by (rule ball_map_inv) simp
    moreover have "conversations ?s' = conversations s" by simp
    ultimately show ?thesis by (simp only: d)
  qed
  show ?thesis
    using assms unfolding direct_inv_alt 1 u l i .
qed

lemma direct_inv_markAsRead:
  assumes "direct_inv s"
  shows "direct_inv (snd (markAsRead u c t s))"
proof (cases "unique (memberships_of s u c)")
  case (Inl e)
  then show ?thesis
    using assms by (simp add: markAsRead_def markAsRead_handler_def mutation_def memberships_of_def)
next
  case (Inr v)
  then show ?thesis
    using assms direct_inv_patch [OF assms]
    by (cases v) (simp_all add: markAsRead_def markAsRead_handler_def mutation_def memberships_of_def)
qed

text \<open>The invariant of direct conversations holds in every store that the mutations reach.\<close>

lemma tables_sendMessage:
  "conversations (snd (sendMessage c u body t s)) = conversations s \<and>
   conversationMembers (snd (sendMessage c u body t s)) = conversationMembers s"
  by (auto simp: sendMessage_def sendMessage_handler_def mutation_def db_insert_def Let_def
           split: sum.splits option.splits)

lemma tables_deleteMessage:
  "conversations (snd (deleteMessage m u s)) = conversations s \<and>
   conversationMembers (snd (deleteMessage m u s)) = conversationMembers s"
  by (simp add: deleteMessage_def deleteMessage_handler_def mutation_def split: option.splits)

lemma tables_toggleReaction:
  "conversations (snd (toggleReaction m u e s)) = conversations s \<and>
   conversationMembers (snd (toggleReaction m u e s)) = conversationMembers s"
proof (cases "e \<in> set ALLOWED_EMOJIS")
  case False
  then show ?thesis using toggleReaction_invalid [of e m u s] by simp
next
  case True
  show ?thesis
  proof (cases "find (\<lambda>r. r_emoji (snd r) = e) (reactions_of s m u)")
    case None
    then show ?thesis using toggleReaction_new [OF True None] by simp
  next
    case (Some d)
    then show ?thesis using toggleReaction_same [OF True Some] by simp
  qed
qed

lemma tables_setTyping:
  "conversations (snd (setTyping c u t s)) = conversations s \<and>
   conversationMembers (snd (setTyping c u t s)) = conversationMembers s"
  by (simp add: setTyping_def setTyping_handler_def mutation_def split: sum.splits option.splits)

lemma tables_clearTyping:
  "conversations (snd (clearTyping c u s)) = conversations s \<and>
   conversationMembers (snd (clearTyping c u s)) = conversationMembers s"
  by (simp add: clearTyping_def clearTyping_handler_def mutation_def split: sum.splits option.splits)

lemma direct_inv_step:
  assumes "direct_inv s"
  shows "direct_inv (step x s)"
proof (cases x)
  case (GetOrCreateDirect a b t1 t2)
  then show ?thesis using direct_inv_getOrCreateDirect [OF assms] by simp
next
  case (CreateGroup n ms c t1 t2)
  then show ?thesis using direct_inv_createGroup [OF assms] by simp
next
  case (MarkAsRead u c t)
  then show ?thesis using direct_inv_markAsRead [OF assms] by simp
next
  case (SendMessage c u body t)
  then show ?thesis
    using assms direct_inv_cong [of "snd (sendMessage c u body t s)" s] tables_sendMessage [of c u body t s] by simp
next
  case (DeleteMessage m u)
  then show ?thesis
    using assms direct_inv_cong [of "snd (deleteMessage m u s)" s] tables_deleteMessage [of m u s] by simp
next
  case (ToggleReaction m u e)
  then show ?thesis
    using assms direct_inv_cong [of "snd (toggleReaction m u e s)" s] tables_toggleReaction [of m u e s] by simp
next
  case (SetTyping c u t)
  then show ?thesis
    using assms direct_inv_cong [of "snd (setTyping c u t s)" s] tables_setTyping [of c u t s] by simp
next
  case (ClearTyping c u)
  then show ?thesis
    using assms direct_inv_cong [of "snd (clearTyping c u s)" s] tables_clearTyping [of c u s] by simp
qed

lemma direct_inv_run: "direct_inv s \<Longrightarrow> direct_inv (run ops s)"
proof (induction ops arbitrary: s)
  case Nil
  then show ?case by (simp add: run_def)
next
  case (Cons x ops)
  have "run (x # ops) s = run ops (step x s)" by (simp add: run_def)
  then show ?case using Cons direct_inv_step by simp
qed

theorem getOrCreateDirect_dedup_witness:
  "fst (run_direct two_users [(0, 1, 500, 500), (1, 0, 600, 600), (0, 1, 700, 700)])
     = [Inr 0, Inr 0, Inr 0] \<and>
   fst (run_direct chat_example [(1, 0, 3000, 3000), (0, 1, 3100, 3100)]) = [Inr 0, Inr 0] \<and>
   (\<exists>c s'. run_direct two_users [(0, 1, 500, 500), (1, 0, 600, 600), (0, 1, 700, 700)]
             = (replicate 3 (Inr c), s') \<and>
           direct_inv s' \<and>
           (\<forall>c'. is_direct s' c' \<and> set (member_users s' c') = {0, 1} \<longleftrightarrow> c' = c) \<and>
           mset (member_users s' c) = {#0, 1#})"
proof -
  let ?calls = "[(0, 1, 500, 500), (1, 0, 600, 600), (0, 1, 700, 700)] :: (nat \<times> nat \<times> int \<times> int) list"
  have 1: "fst (run_direct two_users ?calls) = [Inr 0, Inr 0, Inr 0]" by code_simp
  have 2: "fst (run_direct chat_example [(1, 0, 3000, 3000), (0, 1, 3100, 3100)]) = [Inr 0, Inr 0]"
    by code_simp
  have ne: "(0::nat) \<noteq> 1" by simp
  have c: "?calls \<noteq> []" by simp
  have d: "\<forall>call \<in> set ?calls. (fst call, fst (snd call)) \<in> {(0, 1), (1, 0)}" by simp
  have l: "length ?calls = 3" by simp
  show ?thesis
    using getOrCreateDirect_dedup [OF direct_inv_empty(2) ne c d] 1 2 unfolding l by blast
qed

section \<open>Typing indicators: at most one per user and conversation\<close>

text \<open>
  A store in which every user has at most one typing indicator per conversation stays so
  under every mutation; the empty store is one.
\<close>

lemma typing_clearTyping_length:
  "length (query (typingIndicators (snd (clearTyping c u s))) p)
     \<le> length (query (typingIndicators s) p)"
proof (cases "unique (query (typingIndicators s) (\<lambda>t. ti_userId t = u \<and> ti_conversationId t = c))")
  case (Inl e)
  then have "snd (clearTyping c u s) = s"
    by (simp add: clearTyping_def clearTyping_handler_def mutation_def)
  then show ?thesis by simp
next
  case (Inr v)
  show ?thesis
  proof (cases v)
    case None
    then have "snd (clearTyping c u s) = s"
      using Inr by (simp add: clearTyping_def clearTyping_handler_def mutation_def)
    then show ?thesis by simp
  next
    case (Some x)
    then have "typingIndicators (snd (clearTyping c u s)) = db_delete (typingIndicators s) (fst x)"
      using Inr by (simp add: clearTyping_def clearTyping_handler_def mutation_def)
    then show ?thesis by (simp add: query_delete)
  qed
qed

lemma typing_sendMessage_length:
  "length (query (typingIndicators (snd (sendMessage c u body t s))) p)
     \<le> length (query (typingIndicators s) p)"
proof (cases "unique (query (typingIndicators s) (\<lambda>t. ti_userId t = u \<and> ti_conversationId t = c))")
  case (Inl e)
  then have "snd (sendMessage c u body t s) = s"
    by (simp add: sendMessage_def sendMessage_handler_def mutation_def db_insert_def)
  then show ?thesis by simp
next
  case (Inr v)
  show ?thesis
  proof (cases v)
    case None
    then have "typingIndicators (snd (sendMessage c u body t s)) = typingIndicators s"
      using Inr by (simp add: sendMessage_def sendMessage_handler_def mutation_def db_insert_def)
    then show ?thesis by simp
  next
    case (Some x)
    then have "typingIndicators (snd (sendMessage c u body t s))
                 = db_delete (typingIndicators s) (fst x)"
      using Inr by (simp add: sendMessage_def sendMessage_handler_def mutation_def db_insert_def)
    then show ?thesis by (simp add: query_delete)
  qed
qed

lemma typing_one_setTyping:
  assumes "\<forall>c u. length (query (typingIndicators s)
                     (\<lambda>t. ti_userId t = u \<and> ti_conversationId t = c)) \<le> 1"
  shows "length (query (typingIndicators (snd (setTyping c' u' t' s)))
                   (\<lambda>t. ti_userId t = u \<and> ti_conversationId t = c)) \<le> 1"
proof (cases "c' = c \<and> u' = u")
  case False
  then show ?thesis using typing_setTyping_other [of c' c u' u t' s] assms by simp
next
  case True
  show ?thesis
  proof (cases "fst (setTyping c u t' s)")
    case (Inl e)
    then have "snd (setTyping c u t' s) = s"
      by (auto simp: setTyping_def mutation_def split: prod.splits sum.splits)
    then show ?thesis using assms True by simp
  next
    case (Inr v)
    then have "setTyping c u t' s = (Inr (), snd (setTyping c u t' s))"
      by (metis old.unit.exhaust prod.collapse)
    then show ?thesis using setTyping_sets [of c u t' s] True by fastforce
  qed
qed

lemma typing_one_step:
  assumes "\<forall>c u. length (query (typingIndicators s)
                     (\<lambda>t. ti_userId t = u \<and> ti_conversationId t = c)) \<le> 1"
  shows "length (query (typingIndicators (step x s))
                   (\<lambda>t. ti_userId t = u \<and> ti_conversationId t = c)) \<le> 1"
proof (cases x)
  case (GetOrCreateDirect a b t1 t2)
  then show ?thesis using assms by (simp add: typing_getOrCreateDirect)
next
  case (CreateGroup n ms cr t1 t2)
  then show ?thesis using assms by (simp add: typing_createGroup)
next
  case (MarkAsRead u' c' t)
  then show ?thesis using assms by (simp add: typing_markAsRead)
next
  case (SendMessage c' u' body t)
  have "length (query (typingIndicators (snd (sendMessage c' u' body t s)))
                  (\<lambda>t. ti_userId t = u \<and> ti_conversationId t = c))
        \<le> length (query (typingIndicators s) (\<lambda>t. ti_userId t = u \<and> ti_conversationId t = c))"
    by (rule typing_sendMessage_length)
  moreover have "length (query (typingIndicators s)
                   (\<lambda>t. ti_userId t = u \<and> ti_conversationId t = c)) \<le> 1"
    using assms by blast
  ultimately show ?thesis using SendMessage by simp
next
  case (DeleteMessage m u')
  then show ?thesis using assms by (simp add: typing_deleteMessage)
next
  case (ToggleReaction m u' e)
  then show ?thesis using assms by (simp add: typing_toggleReaction)
next
  case (SetTyping c' u' t)
  then show ?thesis using typing_one_setTyping [OF assms] by simp
next
  case (ClearTyping c' u')
  have "length (query (typingIndicators (snd (clearTyping c' u' s)))
                  (\<lambda>t. ti_userId t = u \<and> ti_conversationId t = c))
        \<le> length (query (typingIndicators s) (\<lambda>t. ti_userId t = u \<and> ti_conversationId t = c))"
    by (rule typing_clearTyping_length)
  moreover have "length (query (typingIndicators s)
                   (\<lambda>t. ti_userId t = u \<and> ti_conversationId t = c)) \<le> 1"
    using assms by blast
  ultimately show ?thesis using ClearTyping by simp
qed

lemma typing_one_run:
  "\<forall>c u. length (query (typingIndicators s) (\<lambda>t. ti_userId t = u \<and> ti_conversationId t = c)) \<le> 1
   \<Longrightarrow> \<forall>c u. length (query (typingIndicators (run ops s))
                          (\<lambda>t. ti_userId t = u \<and> ti_conversationId t = c)) \<le> 1"
proof (induction ops arbitrary: s)
  case Nil
  then show ?case by (simp add: run_def)
next
  case (Cons x ops)
  have "run (x # ops) s = run ops (step x s)" by (simp add: run_def)
  moreover have "\<forall>c u. length (query (typingIndicators (step x s))
                          (\<lambda>t. ti_userId t = u \<and> ti_conversationId t = c)) \<le> 1"
    using typing_one_step [OF Cons.prems] by blast
  ultimately show ?case using Cons.IH by simp
qed

end
